theory Spec2Isabelle
  imports Complex_Main "HOL-Library.Product_Lexorder"
begin

section \<open>Data model\<close>

text \<open>
  Shallow embedding of \<^verbatim>\<open>chromosight/utils/detection.py\<close>.
  Python integers are \<open>int\<close>. numpy float64 values are modelled as exact reals; the
  only place where the code can leave the finite reals (the element-wise division in
  \<^verbatim>\<open>corrcoef2d\<close>) is modelled with an explicit type of results.
  Exceptions are values of \<open>error\<close>, returned as \<open>Inl\<close>.
\<close>

datatype error = ValueError | IndexError | TypeError | AttributeError | NameError

text \<open>A two-dimensional array seen through its shape and its entries (what
  \<^verbatim>\<open>m.shape\<close> and \<^verbatim>\<open>m[i, j]\<close> give, for scipy matrices after
  \<^verbatim>\<open>tocsr()\<close>). Entries are only read inside the shape.\<close>

record 'a mat =
  nrows :: int
  ncols :: int
  entry :: "int \<Rightarrow> int \<Rightarrow> 'a"

text \<open>A Python argument that is either a scipy sparse matrix or a dense numpy array:
  \<^verbatim>\<open>sp.issparse\<close> tells them apart.\<close>

datatype array2d = Sparse "real mat" | Dense "real mat"

fun issparse :: "array2d \<Rightarrow> bool" where
  "issparse (Sparse m) = True"
| "issparse (Dense m) = False"

fun arr :: "array2d \<Rightarrow> real mat" where
  "arr (Sparse m) = m"
| "arr (Dense m) = m"

text \<open>Indexing a csr matrix with two integers: an index outside \<open>[-n, n)\<close> raises
  IndexError, a negative one counts from the end.\<close>

definition getitem :: "'a mat \<Rightarrow> int \<Rightarrow> int \<Rightarrow> error + 'a" where
  "getitem m i j =
     (if i < - nrows m \<or> nrows m \<le> i \<or> j < - ncols m \<or> ncols m \<le> j then Inl IndexError
      else Inr (entry m (if i < 0 then i + nrows m else i) (if j < 0 then j + ncols m else j)))"

section \<open>validate_patterns\<close>

text \<open>State of the loop of \<^verbatim>\<open>validate_patterns\<close>: the score column of
  \<^verbatim>\<open>validated_coords\<close>, the array \<^verbatim>\<open>pattern_windows\<close> and the
  \<^verbatim>\<open>blacklist\<close>.\<close>

record vstate =
  vs_score :: "real list"
  vs_windows :: "real list list list"
  vs_blacklist :: "nat list"

text \<open>\<^verbatim>\<open>range(a, b)\<close> over Python integers.\<close>

definition py_range :: "int \<Rightarrow> int \<Rightarrow> int list" where
  "py_range a b = [a..b - 1]"

text \<open>Assigning a 2D block into a slot of the given shape (numpy broadcasting: each
  dimension of the block must equal the slot's or be 1).\<close>

definition broadcast_to :: "nat \<Rightarrow> 'a list \<Rightarrow> error + 'a list" where
  "broadcast_to n xs =
     (if length xs = n then Inr xs
      else if length xs = 1 then Inr (replicate n (hd xs))
      else Inl ValueError)"

fun broadcast_rows :: "nat \<Rightarrow> 'a list list \<Rightarrow> error + 'a list list" where
  "broadcast_rows w [] = Inr []"
| "broadcast_rows w (r # rs) =
     (case broadcast_to w r of
        Inl e \<Rightarrow> Inl e
      | Inr r' \<Rightarrow> (case broadcast_rows w rs of Inl e \<Rightarrow> Inl e | Inr rs' \<Rightarrow> Inr (r' # rs')))"

definition assign_window :: "nat \<Rightarrow> nat \<Rightarrow> real list list \<Rightarrow> error + real list list" where
  "assign_window h w block =
     (case broadcast_rows w block of
        Inl e \<Rightarrow> Inl e
      | Inr rows \<Rightarrow> broadcast_to h rows)"

text \<open>The bounds test of the loop body (lines 72-77), on the swapped coordinate.\<close>

definition bounds_ok :: "real mat \<Rightarrow> int \<Rightarrow> int \<Rightarrow> int \<Rightarrow> int \<Rightarrow> bool" where
  "bounds_ok matrix half_h half_w p1 p2 =
     (p1 - half_h \<ge> 0 \<and> p1 + half_h + 1 < nrows matrix \<and>
      p2 - half_w \<ge> 0 \<and> p2 + half_w + 1 < ncols matrix)"

definition win_rows :: "int \<Rightarrow> int \<Rightarrow> int list" where
  "win_rows half_h p1 = py_range (p1 - half_h + 1) (p1 + half_h)"

definition win_cols :: "int \<Rightarrow> int \<Rightarrow> int list" where
  "win_cols half_w p2 = py_range (p2 - half_w + 1) (p2 + half_w)"

definition pattern_window :: "real mat \<Rightarrow> int \<Rightarrow> int \<Rightarrow> int \<Rightarrow> int \<Rightarrow> real list list" where
  "pattern_window matrix half_h half_w p1 p2 =
     map (\<lambda>r. map (\<lambda>c. entry matrix r c) (win_cols half_w p2)) (win_rows half_h p1)"

text \<open>Lines 86-98: the number of missing pixels of the window.\<close>

definition tot_missing_pixels ::
  "real mat \<Rightarrow> int set \<Rightarrow> int set \<Rightarrow> int \<Rightarrow> int \<Rightarrow> int \<Rightarrow> int \<Rightarrow> int" where
  "tot_missing_pixels matrix detectable_rows detectable_cols half_h half_w p1 p2 =
     (let n_rows = int (length (win_rows half_h p1));
          n_cols = int (length (win_cols half_w p2));
          n_bad_rows = n_rows - int (card (set (win_rows half_h p1) \<inter> detectable_rows));
          n_bad_cols = n_cols - int (card (set (win_cols half_w p2) \<inter> detectable_cols));
          tot_undetected_pixels = n_bad_rows * n_cols + n_bad_cols * n_rows - n_bad_rows * n_bad_cols;
          tot_zero_pixels =
            int (length (filter (\<lambda>x. x = 0) (concat (pattern_window matrix half_h half_w p1 p2))))
      in max tot_undetected_pixels tot_zero_pixels)"

definition tot_pixels :: "int \<Rightarrow> int \<Rightarrow> int \<Rightarrow> int \<Rightarrow> int" where
  "tot_pixels half_h half_w p1 p2 =
     int (length (win_rows half_h p1)) * int (length (win_cols half_w p2))"

text \<open>One iteration of the loop of lines 66-111 for the candidate \<open>l\<close> at index \<open>i\<close>.\<close>

definition validate_step ::
  "real mat \<Rightarrow> real mat \<Rightarrow> int set \<Rightarrow> int set \<Rightarrow> int \<Rightarrow> int \<Rightarrow> real \<Rightarrow>
   vstate \<Rightarrow> nat \<Rightarrow> int \<times> int \<Rightarrow> error + vstate" where
  "validate_step matrix conv_mat detectable_rows detectable_cols win_h win_w max_undetected_perc st i l =
     (let half_h = win_h div 2 + 1;
          half_w = win_w div 2 + 1;
          p1 = (if fst l > snd l then snd l else fst l);
          p2 = (if fst l > snd l then fst l else snd l)
      in if bounds_ok matrix half_h half_w p1 p2 then
           (if real_of_int (tot_missing_pixels matrix detectable_rows detectable_cols half_h half_w p1 p2)
                 / real_of_int (tot_pixels half_h half_w p1 p2)
               < max_undetected_perc / 100
            then
              (case getitem conv_mat (fst l) (snd l) of
                 Inl e \<Rightarrow> Inl e
               | Inr s \<Rightarrow>
                  (case assign_window (nat win_h) (nat win_w)
                          (pattern_window matrix half_h half_w p1 p2) of
                     Inl e \<Rightarrow> Inl e
                   | Inr w \<Rightarrow>
                       Inr (st\<lparr>vs_score := (vs_score st)[i := s],
                               vs_windows := (vs_windows st)[i := w]\<rparr>)))
            else Inr (st\<lparr>vs_blacklist := vs_blacklist st @ [i]\<rparr>))
         else Inr (st\<lparr>vs_blacklist := vs_blacklist st @ [i]\<rparr>))"

fun validate_loop ::
  "real mat \<Rightarrow> real mat \<Rightarrow> int set \<Rightarrow> int set \<Rightarrow> int \<Rightarrow> int \<Rightarrow> real \<Rightarrow>
   nat \<Rightarrow> (int \<times> int) list \<Rightarrow> vstate \<Rightarrow> error + vstate" where
  "validate_loop matrix conv_mat dr dc win_h win_w perc i [] st = Inr st"
| "validate_loop matrix conv_mat dr dc win_h win_w perc i (l # ls) st =
     (case validate_step matrix conv_mat dr dc win_h win_w perc st i l of
        Inl e \<Rightarrow> Inl e
      | Inr st' \<Rightarrow> validate_loop matrix conv_mat dr dc win_h win_w perc (Suc i) ls st')"

text \<open>\<^verbatim>\<open>validate_patterns\<close>: the arrays are allocated with one slot per candidate,
  the loop fills the slots of the accepted candidates and blacklists the others, and the
  blacklisted slots are dropped at the end (lines 112-118). The table has the columns bin1,
  bin2 and score; bin1 and bin2 are the columns of \<^verbatim>\<open>coords\<close> (lines 57-59).\<close>

definition validate_patterns ::
  "(int \<times> int) list \<Rightarrow> real mat \<Rightarrow> real mat \<Rightarrow> int set \<times> int set \<Rightarrow> int \<times> int \<Rightarrow> real \<Rightarrow>
   error + ((int \<times> int \<times> real) list \<times> real list list list)" where
  "validate_patterns coords matrix conv_mat detectable_bins kernel_shape max_undetected_perc =
     (let win_h = fst kernel_shape;
          win_w = snd kernel_shape;
          n = length coords;
          init = \<lparr>vs_score = replicate n 0,
                  vs_windows = replicate n (replicate (nat win_h) (replicate (nat win_w) 0)),
                  vs_blacklist = []\<rparr>
      in case validate_loop matrix conv_mat (fst detectable_bins) (snd detectable_bins)
                win_h win_w max_undetected_perc 0 coords init of
           Inl e \<Rightarrow> Inl e
         | Inr st \<Rightarrow>
             (let blacklist_mask = map (\<lambda>i. i \<in> set (vs_blacklist st)) [0..<n];
                  keep = filter (\<lambda>i. \<not> blacklist_mask ! i) [0..<n]
              in Inr (map (\<lambda>i. (fst (coords ! i), snd (coords ! i), vs_score st ! i)) keep,
                      map (\<lambda>i. vs_windows st ! i) keep)))"

text \<open>The acceptance test that the loop applies to one candidate, as a predicate.\<close>

definition accepted :: "real mat \<Rightarrow> int set \<times> int set \<Rightarrow> int \<times> int \<Rightarrow> real \<Rightarrow> int \<times> int \<Rightarrow> bool" where
  "accepted matrix detectable_bins kernel_shape max_undetected_perc l =
     (let half_h = fst kernel_shape div 2 + 1;
          half_w = snd kernel_shape div 2 + 1;
          p1 = min (fst l) (snd l);
          p2 = max (fst l) (snd l)
      in bounds_ok matrix half_h half_w p1 p2 \<and>
         real_of_int (tot_missing_pixels matrix (fst detectable_bins) (snd detectable_bins) half_h half_w p1 p2)
           / real_of_int (tot_pixels half_h half_w p1 p2)
         < max_undetected_perc / 100)"

text \<open>The rejection test as the specification words it: the window centred on the
  canonical coordinate, with half-height and half-width \<open>kernel_dim div 2 + 1\<close>, lies
  inside the matrix. The rows and columns that the code reads (\<open>win_rows\<close>, \<open>win_cols\<close>)
  are part of this window.\<close>

definition spec_window_within_bounds :: "real mat \<Rightarrow> int \<times> int \<Rightarrow> int \<times> int \<Rightarrow> bool" where
  "spec_window_within_bounds matrix kernel_shape l =
     (let half_h = fst kernel_shape div 2 + 1;
          half_w = snd kernel_shape div 2 + 1;
          p1 = min (fst l) (snd l);
          p2 = max (fst l) (snd l)
      in list_all (\<lambda>r. 0 \<le> r \<and> r < nrows matrix) (py_range (p1 - half_h) (p1 + half_h + 1)) \<and>
         list_all (\<lambda>c. 0 \<le> c \<and> c < ncols matrix) (py_range (p2 - half_w) (p2 + half_w + 1)))"

definition spec_missing_fraction :: "real mat \<Rightarrow> int set \<times> int set \<Rightarrow> int \<times> int \<Rightarrow> int \<times> int \<Rightarrow> real" where
  "spec_missing_fraction matrix detectable_bins kernel_shape l =
     (let half_h = fst kernel_shape div 2 + 1;
          half_w = snd kernel_shape div 2 + 1;
          p1 = min (fst l) (snd l);
          p2 = max (fst l) (snd l)
      in real_of_int (tot_missing_pixels matrix (fst detectable_bins) (snd detectable_bins) half_h half_w p1 p2)
           / real_of_int (tot_pixels half_h half_w p1 p2))"

text \<open>A concrete setting used to evaluate the function: a 10 x 10 contact map without
  any empty pixel, every bin detectable, and a correlation map of the same shape.\<close>

definition ex_matrix :: "real mat" where
  "ex_matrix = \<lparr>nrows = 10, ncols = 10, entry = (\<lambda>i j. 1)\<rparr>"

definition ex_conv :: "real mat" where
  "ex_conv = \<lparr>nrows = 10, ncols = 10, entry = (\<lambda>i j. if i = 5 \<and> j = 2 then 9 / 10 else 1 / 2)\<rparr>"

definition ex_bins :: "int set \<times> int set" where
  "ex_bins = ({0..9}, {0..9})"

section \<open>label_connected_pixels_sparse\<close>

text \<open>A scipy \<^verbatim>\<open>coo_matrix\<close>: its shape and the three parallel arrays row, col and
  data, in storage order.\<close>

record 'a coo =
  coo_shape :: "int \<times> int"
  coo_row :: "int list"
  coo_col :: "int list"
  coo_data :: "'a list"

text \<open>\<^verbatim>\<open>np.diff\<close> of a one-dimensional array.\<close>

fun np_diff :: "int list \<Rightarrow> int list" where
  "np_diff (x # y # xs) = (y - x) # np_diff (y # xs)"
| "np_diff xs = []"

definition get_1d_foci_transition :: "int list \<Rightarrow> int list \<Rightarrow> bool list" where
  "get_1d_foci_transition m_row m_col =
     (let row_shift = map abs (np_diff m_row);
          col_shift = map abs (np_diff m_col);
          stay_foci_row = map (\<lambda>s. s < 2) row_shift;
          stay_foci_col = map (\<lambda>s. s < 2) col_shift;
          stay_foci = map (\<lambda>(a, b). a \<and> b) (zip stay_foci_row stay_foci_col)
      in stay_foci @ [False])"

text \<open>\<^verbatim>\<open>m.T.tocsr().tocoo()\<close> on the entries of a coo matrix: the entries of the
  transpose in row-major order, entries at the same position added up.\<close>

fun sum_duplicates :: "(int \<times> int \<times> 'a::plus) list \<Rightarrow> (int \<times> int \<times> 'a) list" where
  "sum_duplicates ((r, c, d) # (r', c', d') # es) =
     (if r = r' \<and> c = c' then sum_duplicates ((r, c, d + d') # es)
      else (r, c, d) # sum_duplicates ((r', c', d') # es))"
| "sum_duplicates es = es"

definition transpose_tocsr_tocoo :: "int list \<Rightarrow> int list \<Rightarrow> 'a::plus list \<Rightarrow> (int \<times> int \<times> 'a) list" where
  "transpose_tocsr_tocoo row col data =
     sum_duplicates (sort_key (\<lambda>e. (fst e, fst (snd e))) (zip col (zip row data)))"

text \<open>\<^verbatim>\<open>fill_adjacency_1d\<close>: the adjacency matrix is kept as the list of its
  nonzero positions. Writing outside the \<open>n \<times> n\<close> matrix raises IndexError.\<close>

fun fill_adjacency_1d ::
  "nat \<Rightarrow> (nat \<times> nat) list \<Rightarrow> nat \<Rightarrow> bool list \<Rightarrow> (nat \<Rightarrow> nat) \<Rightarrow> error + (nat \<times> nat) list" where
  "fill_adjacency_1d n adj candidate_id [] ids = Inr adj"
| "fill_adjacency_1d n adj candidate_id (next_candidate_in_focus # stay_foci) ids =
     (if next_candidate_in_focus then
        (let adj_from = ids candidate_id; adj_to = ids (candidate_id + 1)
         in if adj_from < n \<and> adj_to < n
            then fill_adjacency_1d n (adj @ [(adj_from, adj_to)]) (candidate_id + 1) stay_foci ids
            else Inl IndexError)
      else fill_adjacency_1d n adj (candidate_id + 1) stay_foci ids)"

text \<open>\<^verbatim>\<open>scipy.sparse.csgraph.connected_components\<close> with its defaults (a directed
  graph, weak connectivity): the number of components and a label per vertex, the
  components numbered from 0 in the order of their smallest vertex. Each vertex starts as
  its own representative, every edge merges two classes to the smaller representative.\<close>

definition merge_labels :: "nat list \<Rightarrow> nat \<times> nat \<Rightarrow> nat list" where
  "merge_labels reps e =
     (let a = reps ! fst e; b = reps ! snd e
      in map (\<lambda>c. if c = max a b then min a b else c) reps)"

definition connected_components :: "nat \<Rightarrow> (nat \<times> nat) list \<Rightarrow> nat \<times> nat list" where
  "connected_components n adj =
     (let reps = foldl merge_labels [0..<n] adj;
          roots = filter (\<lambda>v. reps ! v = v) [0..<n]
      in (length roots, map (\<lambda>v. length (filter (\<lambda>r. r < reps ! v) roots)) [0..<n]))"

text \<open>Lines 501-504: labels of foci with fewer than \<open>min_focus_size\<close> pixels become 0.\<close>

fun remove_small :: "nat \<Rightarrow> nat list \<Rightarrow> nat list \<Rightarrow> nat list" where
  "remove_small min_focus_size [] foci = foci"
| "remove_small min_focus_size (focus_num # rest) foci =
     remove_small min_focus_size rest
       (if length (filter (\<lambda>f. f = focus_num) foci) < min_focus_size
        then map (\<lambda>f. if f = focus_num then 0 else f) foci
        else foci)"

text \<open>Boolean-mask indexing \<^verbatim>\<open>a[mask]\<close>.\<close>

definition masked :: "'a list \<Rightarrow> bool list \<Rightarrow> 'a list" where
  "masked xs msk = map fst (filter snd (zip xs msk))"

text \<open>Lines 459-496: the adjacency between candidate pixels, from the pixels in storage
  order and from the pixels of the transpose in row-major order.\<close>

definition adjacency :: "'a coo \<Rightarrow> error + (nat \<times> nat) list" where
  "adjacency matrix =
     (let n_candidates = length (coo_data matrix);
          stay_foci_hori = get_1d_foci_transition (coo_row matrix) (coo_col matrix);
          trans_ids = transpose_tocsr_tocoo (coo_row matrix) (coo_col matrix)
                        [0..<length (coo_row matrix)];
          stay_foci_verti =
            get_1d_foci_transition (map fst trans_ids) (map (\<lambda>e. fst (snd e)) trans_ids);
          trans_ids_data = map (\<lambda>e. snd (snd e)) trans_ids
      in case fill_adjacency_1d n_candidates [] 0 stay_foci_hori (\<lambda>i. i) of
           Inl e \<Rightarrow> Inl e
         | Inr adj_mat \<Rightarrow>
             fill_adjacency_1d n_candidates adj_mat 0 stay_foci_verti (\<lambda>i. trans_ids_data ! i))"

text \<open>Lines 498-500: the labels of the pixels before the small foci are removed.\<close>

definition foci_before_removal :: "'a coo \<Rightarrow> error + nat list" where
  "foci_before_removal matrix =
     (case adjacency matrix of
        Inl e \<Rightarrow> Inl e
      | Inr adj_mat \<Rightarrow>
          Inr (map Suc (snd (connected_components (length (coo_data matrix)) adj_mat))))"

definition label_connected_pixels_sparse :: "'a coo \<Rightarrow> nat \<Rightarrow> error + nat \<times> nat coo" where
  "label_connected_pixels_sparse matrix min_focus_size =
     (case adjacency matrix of
        Inl e \<Rightarrow> Inl e
      | Inr adj_mat \<Rightarrow>
          (let n_candidates = length (coo_data matrix);
               num_foci = fst (connected_components n_candidates adj_mat);
               foci = map Suc (snd (connected_components n_candidates adj_mat));
               foci = remove_small min_focus_size [1..<num_foci + 1] foci;
               good_foci = map (\<lambda>f. f > 0) foci
           in Inr (num_foci,
                   \<lparr>coo_shape = coo_shape matrix,
                    coo_row = masked (coo_row matrix) good_foci,
                    coo_col = masked (coo_col matrix) good_foci,
                    coo_data = masked foci good_foci\<rparr>)))"

text \<open>Conversions between a dense array (a list of rows) and a coo matrix:
  \<^verbatim>\<open>sp.coo_matrix(dense)\<close> stores the nonzero entries in row-major order, and
  \<^verbatim>\<open>m.todense()\<close> adds up the entries stored at each position.\<close>

definition coo_of_dense :: "'a::zero list list \<Rightarrow> 'a coo" where
  "coo_of_dense rows =
     (let es = concat (map (\<lambda>(i, r). map (\<lambda>(j, v). (int i, int j, v))
                               (filter (\<lambda>(j, v). v \<noteq> 0) (zip [0..<length r] r)))
                          (zip [0..<length rows] rows))
      in \<lparr>coo_shape = (int (length rows), (case rows of [] \<Rightarrow> 0 | r # _ \<Rightarrow> int (length r))),
          coo_row = map fst es,
          coo_col = map (\<lambda>e. fst (snd e)) es,
          coo_data = map (\<lambda>e. snd (snd e)) es\<rparr>)"

definition csr_lookup :: "'a::monoid_add coo \<Rightarrow> int \<Rightarrow> int \<Rightarrow> 'a" where
  "csr_lookup m r c =
     sum_list (map (\<lambda>e. snd (snd e))
       (filter (\<lambda>e. fst e = r \<and> fst (snd e) = c) (zip (coo_row m) (zip (coo_col m) (coo_data m)))))"

definition todense :: "'a::monoid_add coo \<Rightarrow> 'a list list" where
  "todense m =
     map (\<lambda>r. map (\<lambda>c. csr_lookup m r c) (py_range 0 (snd (coo_shape m))))
       (py_range 0 (fst (coo_shape m)))"

text \<open>The adjacency of the specification: two distinct pixels whose rows and columns
  differ by at most 1; two candidate pixels share a focus when a chain of adjacent
  candidate pixels connects them.\<close>

definition spec_adjacent8 :: "int \<times> int \<Rightarrow> int \<times> int \<Rightarrow> bool" where
  "spec_adjacent8 p q = (p \<noteq> q \<and> \<bar>fst p - fst q\<bar> \<le> 1 \<and> \<bar>snd p - snd q\<bar> \<le> 1)"

definition spec_same_focus :: "(int \<times> int) list \<Rightarrow> int \<times> int \<Rightarrow> int \<times> int \<Rightarrow> bool" where
  "spec_same_focus pixels p q =
     ((p, q) \<in> {(a, b). a \<in> set pixels \<and> b \<in> set pixels \<and> spec_adjacent8 a b}\<^sup>*)"

text \<open>The number of foci of the specification: the number of classes of candidate pixels
  under \<open>spec_same_focus\<close>.\<close>

definition spec_focus_count :: "(int \<times> int) list \<Rightarrow> nat" where
  "spec_focus_count pixels =
     card ((\<lambda>p. {q. q \<in> set pixels \<and> spec_same_focus pixels p q}) ` set pixels)"

section \<open>picker\<close>

text \<open>\<^verbatim>\<open>np.median\<close> (nan, here None, for an empty array), \<^verbatim>\<open>np.unique\<close> and
  \<^verbatim>\<open>np.argmax\<close> (the first index of the maximum).\<close>

definition np_median :: "real list \<Rightarrow> real option" where
  "np_median xs =
     (if xs = [] then None
      else (let s = sort xs; n = length xs
            in Some (if even n then (s ! (n div 2 - 1) + s ! (n div 2)) / 2 else s ! (n div 2))))"

definition np_unique :: "nat list \<Rightarrow> nat list" where
  "np_unique xs = sort (remdups xs)"

fun argmax_from :: "nat \<Rightarrow> real \<Rightarrow> nat \<Rightarrow> real list \<Rightarrow> nat" where
  "argmax_from best v i [] = best"
| "argmax_from best v i (x # xs) =
     (if x > v then argmax_from i x (i + 1) xs else argmax_from best v (i + 1) xs)"

definition np_argmax :: "real list \<Rightarrow> error + nat" where
  "np_argmax xs = (case xs of [] \<Rightarrow> Inl ValueError | x # rest \<Rightarrow> Inr (argmax_from 0 x 1 rest))"

text \<open>The body of the loop of lines 365-380 for one focus.\<close>

definition pick_focus ::
  "real coo \<Rightarrow> nat coo \<Rightarrow> (int \<times> int) list \<Rightarrow> nat \<Rightarrow> nat \<Rightarrow> error + (int \<times> int) list" where
  "pick_focus mat_conv labelled_mat foci_coords focus_rank focus_id =
     (let focus_idx = filter (\<lambda>i. coo_data labelled_mat ! i = focus_id)
                        [0..<length (coo_data labelled_mat)];
          focus_rows = map (\<lambda>i. coo_row labelled_mat ! i) focus_idx;
          focus_cols = map (\<lambda>i. coo_col labelled_mat ! i) focus_idx
      in case np_argmax (map (\<lambda>(r, c). csr_lookup mat_conv r c) (zip focus_rows focus_cols)) of
           Inl e \<Rightarrow> Inl e
         | Inr focus_pixel_idx \<Rightarrow>
             (let original_pixel_idx = focus_idx ! focus_pixel_idx;
                  focus_pixel_row = coo_row labelled_mat ! original_pixel_idx;
                  focus_pixel_col = coo_col labelled_mat ! original_pixel_idx
              in if focus_rank < length foci_coords
                 then Inr (foci_coords[focus_rank := (focus_pixel_row, focus_pixel_col)])
                 else Inl IndexError))"

fun pick_loop ::
  "real coo \<Rightarrow> nat coo \<Rightarrow> nat \<Rightarrow> nat list \<Rightarrow> (int \<times> int) list \<Rightarrow> error + (int \<times> int) list" where
  "pick_loop mat_conv labelled_mat focus_rank [] foci_coords = Inr foci_coords"
| "pick_loop mat_conv labelled_mat focus_rank (focus_id # rest) foci_coords =
     (case pick_focus mat_conv labelled_mat foci_coords focus_rank focus_id of
        Inl e \<Rightarrow> Inl e
      | Inr foci_coords' \<Rightarrow> pick_loop mat_conv labelled_mat (Suc focus_rank) rest foci_coords')"

text \<open>Lines 344-352: the candidate pixels. \<^verbatim>\<open>preproc.mad\<close> is not part of the
  sources; it is a parameter of the model.\<close>

definition candidates :: "(real list \<Rightarrow> real) \<Rightarrow> real coo \<Rightarrow> real \<Rightarrow> real coo" where
  "candidates mad mat_conv precision =
     (let thres = map_option (\<lambda>m. m + precision * mad (coo_data mat_conv))
                    (np_median (coo_data mat_conv));
          data1 = map (\<lambda>d. if (case thres of None \<Rightarrow> False | Some t \<Rightarrow> d < t) then 0 else d)
                    (coo_data mat_conv);
          data2 = map (\<lambda>d. if d \<noteq> 0 then 1 else d) data1;
          nonzero = map (\<lambda>d. d \<noteq> 0) data2
      in \<lparr>coo_shape = coo_shape mat_conv,
          coo_row = masked (coo_row mat_conv) nonzero,
          coo_col = masked (coo_col mat_conv) nonzero,
          coo_data = masked data2 nonzero\<rparr>)"

definition picker ::
  "(real list \<Rightarrow> real) \<Rightarrow> real coo \<Rightarrow> real \<Rightarrow> error + (int \<times> int) list option" where
  "picker mad mat_conv precision =
     (let candidate_mat = candidates mad mat_conv precision
      in if length (coo_data candidate_mat) > 0 then
           (case label_connected_pixels_sparse candidate_mat 2 of
              Inl e \<Rightarrow> Inl e
            | Inr (num_foci, labelled_mat) \<Rightarrow>
                (case pick_loop mat_conv labelled_mat 0 (np_unique (coo_data labelled_mat))
                        (replicate num_foci (0, 0)) of
                   Inl e \<Rightarrow> Inl e
                 | Inr foci_coords \<Rightarrow> Inr (Some foci_coords)))
         else Inr None)"

definition ex_M :: "int list list" where
  "ex_M = [[1, 0, 0, 0], [1, 0, 1, 0], [1, 0, 1, 1], [0, 0, 0, 0]]"

section \<open>pattern_detector and explore_patterns\<close>

record contact_map =
  cm_matrix :: "real mat"
  cm_max_dist :: int
  cm_detectable_bins :: "int set \<times> int set"

text \<open>What a kernel variable of \<^verbatim>\<open>explore_patterns\<close> can hold: a kernel matrix of
  the configuration, or the second result of \<^verbatim>\<open>pattern_detector\<close> (a stack of
  windows, or None).\<close>

datatype kernel = KMat "real mat" | KStack "real list list list" | KNone

text \<open>The first result of \<^verbatim>\<open>pattern_detector\<close>: None, or the table of
  \<^verbatim>\<open>validate_patterns\<close>, a pandas DataFrame with the columns bin1, bin2, score
  (line 57). The docstring of \<^verbatim>\<open>pattern_detector\<close> announces a numpy array with
  three columns instead; both are kept, since a Python loop over the two differs: a
  DataFrame yields its column labels, an array its rows.\<close>

datatype detected = NoneVal | Frame "(int \<times> int \<times> real) list" | Array "(int \<times> int \<times> real) list"

record kernel_config =
  kc_max_iterations :: int
  kc_kernels :: "kernel list"
  kc_precision :: real
  kc_max_dist :: int
  kc_max_perc_undetected :: real

definition pattern_detector ::
  "(contact_map \<Rightarrow> kernel_config \<Rightarrow> real mat \<Rightarrow> error + detected \<times> kernel) \<Rightarrow>
   contact_map \<Rightarrow> kernel_config \<Rightarrow> kernel \<Rightarrow> error + detected \<times> kernel" where
  "pattern_detector matching contact_map kernel_config kernel_matrix =
     (case kernel_matrix of
        KNone \<Rightarrow> Inl AttributeError
      | KStack ws \<Rightarrow>
          (if int (length ws) \<ge> nrows (cm_matrix contact_map) then Inr (NoneVal, KNone)
           else Inl ValueError)
      | KMat k \<Rightarrow>
          (if nrows k \<ge> nrows (cm_matrix contact_map) then Inr (NoneVal, KNone)
           else matching contact_map kernel_config k))"

datatype item = Label string | Row int int real

fun py_iter :: "detected \<Rightarrow> error + item list" where
  "py_iter NoneVal = Inl TypeError"
| "py_iter (Frame rows) = Inr [Label ''bin1'', Label ''bin2'', Label ''score'']"
| "py_iter (Array rows) = Inr (map (\<lambda>(pos1, pos2, score). Row pos1 pos2 score) rows)"

fun neigh_hash :: "item \<Rightarrow> int \<Rightarrow> error + int \<times> int" where
  "neigh_hash (Label s) window = Inl TypeError"
| "neigh_hash (Row pos1 pos2 score) window = Inr (pos1 div window, pos2 div window)"

record estate =
  all_patterns :: "(int \<times> int \<times> real) set"
  hashed_neighborhoods :: "(int \<times> int) set"
  old_pattern_count :: int
  current_pattern_count :: int
  list_current_pattern_count :: "int list"
  pileups :: "int \<Rightarrow> kernel list"
  detected_coords :: "detected option"

fun coords_loop :: "int \<Rightarrow> item list \<Rightarrow> estate \<Rightarrow> error + estate" where
  "coords_loop window [] st = Inr st"
| "coords_loop window (new_coords # rest) st =
     (case neigh_hash new_coords window of
        Inl e \<Rightarrow> Inl e
      | Inr h \<Rightarrow>
          (if h \<notin> hashed_neighborhoods st then
             (case new_coords of
                Label s \<Rightarrow> Inl ValueError
              | Row pos1 pos2 score \<Rightarrow>
                  coords_loop window rest
                    (st\<lparr>all_patterns := insert (pos1, pos2, score) (all_patterns st),
                        hashed_neighborhoods := insert h (hashed_neighborhoods st)\<rparr>))
           else coords_loop window rest st))"

fun kernel_loop ::
  "(kernel \<Rightarrow> error + detected \<times> kernel) \<Rightarrow> int \<Rightarrow> int \<Rightarrow> kernel list \<Rightarrow> estate \<Rightarrow> error + estate" where
  "kernel_loop detector window i [] st = Inr st"
| "kernel_loop detector window i (kernel_matrix # rest) st =
     (case detector kernel_matrix of
        Inl e \<Rightarrow> Inl e
      | Inr (det, pileup_pattern) \<Rightarrow>
          (case py_iter det of
             Inl e \<Rightarrow> Inl e
           | Inr items \<Rightarrow>
               (case coords_loop window items (st\<lparr>detected_coords := Some det\<rparr>) of
                  Inl e \<Rightarrow> Inl e
                | Inr st' \<Rightarrow>
                    kernel_loop detector window i rest
                      (st'\<lparr>pileups := (pileups st')(i := pileups st' i @ [pileup_pattern])\<rparr>))))"

definition shape0 :: "detected option \<Rightarrow> error + int" where
  "shape0 d = (case d of None \<Rightarrow> Inl NameError | Some NoneVal \<Rightarrow> Inl AttributeError
               | Some (Frame rows) \<Rightarrow> Inr (int (length rows))
               | Some (Array rows) \<Rightarrow> Inr (int (length rows)))"

fun iteration_loop ::
  "(kernel \<Rightarrow> error + detected \<times> kernel) \<Rightarrow> kernel list \<Rightarrow> int \<Rightarrow> int list \<Rightarrow> estate \<Rightarrow> error + estate" where
  "iteration_loop detector ori window [] st = Inr st"
| "iteration_loop detector ori window (i # rest) st =
     (if old_pattern_count st \<noteq> current_pattern_count st then
        (let st1 = st\<lparr>old_pattern_count := current_pattern_count st\<rparr>;
             current_kernels = (if i = 1 then ori else pileups st1 (i - 1))
         in case kernel_loop detector window i current_kernels st1 of
              Inl e \<Rightarrow> Inl e
            | Inr st2 \<Rightarrow>
                (case shape0 (detected_coords st2) of
                   Inl e \<Rightarrow> Inl e
                 | Inr n \<Rightarrow>
                     iteration_loop detector ori window rest
                       (st2\<lparr>list_current_pattern_count := list_current_pattern_count st2 @ [n]\<rparr>)))
      else iteration_loop detector ori window rest st)"

text \<open>\<^verbatim>\<open>explore_patterns\<close>. The part of \<^verbatim>\<open>pattern_detector\<close> after its first
  test (lines 166-190) is the parameter \<open>matching\<close>.\<close>

definition explore_patterns ::
  "(contact_map \<Rightarrow> kernel_config \<Rightarrow> real mat \<Rightarrow> error + detected \<times> kernel) \<Rightarrow>
   contact_map \<Rightarrow> kernel_config \<Rightarrow> int \<Rightarrow>
   error + ((int \<times> int \<times> real) set \<times> (int \<times> kernel list) list \<times> int list)" where
  "explore_patterns matching contact_map kernel_config window =
     (let init = \<lparr>all_patterns = {}, hashed_neighborhoods = {},
                  old_pattern_count = - 1, current_pattern_count = 0,
                  list_current_pattern_count = [],
                  pileups = (\<lambda>i. []),
                  detected_coords = None\<rparr>;
          passes = py_range 1 (kc_max_iterations kernel_config + 1)
      in case iteration_loop (pattern_detector matching contact_map kernel_config)
                (kc_kernels kernel_config) window passes init of
           Inl e \<Rightarrow> Inl e
         | Inr st \<Rightarrow>
             Inr (all_patterns st, map (\<lambda>i. (i, pileups st i)) passes,
                  list_current_pattern_count st))"

definition ex_contact_map :: contact_map where
  "ex_contact_map =
     \<lparr>cm_matrix = \<lparr>nrows = 3, ncols = 3, entry = (\<lambda>i j. 1)\<rparr>, cm_max_dist = 3,
      cm_detectable_bins = ({0..2}, {0..2})\<rparr>"

text \<open>What lines 166-190 return when the picker finds no candidate (lines 180-181).\<close>

definition ex_matching_none ::
  "contact_map \<Rightarrow> kernel_config \<Rightarrow> real mat \<Rightarrow> error + detected \<times> kernel" where
  "ex_matching_none contact_map kernel_config kernel_matrix = Inr (NoneVal, KNone)"

definition ex_kernel_config_small :: kernel_config where
  "ex_kernel_config_small =
     \<lparr>kc_max_iterations = 3,
      kc_kernels = [KMat \<lparr>nrows = 1, ncols = 1, entry = (\<lambda>i j. 1)\<rparr>],
      kc_precision = 4, kc_max_dist = 3, kc_max_perc_undetected = 10\<rparr>"

definition ex_kernel_config :: kernel_config where
  "ex_kernel_config =
     \<lparr>kc_max_iterations = 1,
      kc_kernels = [KMat \<lparr>nrows = 3, ncols = 3, entry = (\<lambda>i j. 1)\<rparr>],
      kc_precision = 4, kc_max_dist = 3, kc_max_perc_undetected = 10\<rparr>"

text \<open>Concrete inputs used to evaluate the labelling and the picker.\<close>

definition ex_pixels :: "(int \<times> int) list" where
  "ex_pixels = [(0, 0), (1, 0), (1, 2), (2, 0), (2, 2), (2, 3)]"

definition ex_foci_mat :: "nat coo" where
  "ex_foci_mat = \<lparr>coo_shape = (4, 4), coo_row = [0, 1, 1, 2, 2, 2],
            coo_col = [0, 0, 2, 0, 2, 3], coo_data = [1, 1, 2, 1, 2, 2]\<rparr>"

definition ex_lonely :: "int coo" where
  "ex_lonely = \<lparr>coo_shape = (6, 6), coo_row = [0, 0, 5], coo_col = [0, 1, 5], coo_data = [1, 1, 1]\<rparr>"

definition ex_lonely_foci :: "nat coo" where
  "ex_lonely_foci = \<lparr>coo_shape = (6, 6), coo_row = [0, 0], coo_col = [0, 1], coo_data = [1, 1]\<rparr>"

text \<open>An X-shaped group of candidate pixels, the same group with one more pixel under
  its lower left corner, and a correlation map whose stored pixels are the X.\<close>

definition ex_X :: "int list list" where
  "ex_X = [[1, 0, 1], [0, 1, 0], [1, 0, 1]]"

definition ex_X_pixels :: "(int \<times> int) list" where
  "ex_X_pixels = [(0, 0), (0, 2), (1, 1), (2, 0), (2, 2)]"

definition ex_X_foci :: "nat coo" where
  "ex_X_foci = \<lparr>coo_shape = (3, 3), coo_row = [0, 1, 2], coo_col = [2, 1, 0], coo_data = [2, 2, 2]\<rparr>"

definition ex_X_conv :: "real coo" where
  "ex_X_conv = \<lparr>coo_shape = (3, 3), coo_row = [0, 0, 1, 2, 2], coo_col = [0, 2, 1, 0, 2],
                coo_data = [2, 2, 2, 2, 2]\<rparr>"

definition ex_Y :: "int list list" where
  "ex_Y = [[1, 0, 1], [0, 1, 0], [1, 0, 1], [1, 0, 0]]"

definition ex_Y_pixels :: "(int \<times> int) list" where
  "ex_Y_pixels = [(0, 0), (0, 2), (1, 1), (2, 0), (2, 2), (3, 0)]"

definition ex_Y_foci :: "nat coo" where
  "ex_Y_foci = \<lparr>coo_shape = (4, 3), coo_row = [0, 1, 2, 3], coo_col = [2, 1, 0, 0],
                coo_data = [2, 2, 2, 2]\<rparr>"

definition ex_conv_coo :: "real coo" where
  "ex_conv_coo = \<lparr>coo_shape = (8, 8), coo_row = [3, 3, 7], coo_col = [3, 4, 7], coo_data = [2, 2, 2]\<rparr>"

section \<open>xcorr2 and corrcoef2d\<close>

text \<open>scipy's sparse constructors and operations, on the shape and the entries of their
  results. A negative dimension, a diagonal outside the matrix and operands of
  incompatible shapes raise ValueError.\<close>

definition new_sparse :: "int \<Rightarrow> int \<Rightarrow> error + real mat" where
  "new_sparse m n =
     (if m < 0 \<or> n < 0 then Inl ValueError
      else Inr \<lparr>nrows = m, ncols = n, entry = (\<lambda>i j. 0)\<rparr>)"

definition sp_diags :: "real list \<Rightarrow> int list \<Rightarrow> int \<Rightarrow> int \<Rightarrow> error + real mat" where
  "sp_diags diagonals offsets m n =
     (if list_ex (\<lambda>off. min (min (m + off) (n - off)) (min m n) < 0) offsets then Inl ValueError
      else Inr \<lparr>nrows = m, ncols = n,
                entry = (\<lambda>i j. sum_list (map (\<lambda>(d, off). if j - i = off then d else 0)
                                             (zip diagonals offsets)))\<rparr>)"

definition matmul :: "real mat \<Rightarrow> real mat \<Rightarrow> error + real mat" where
  "matmul A B =
     (if ncols A \<noteq> nrows B then Inl ValueError
      else Inr \<lparr>nrows = nrows A, ncols = ncols B,
                entry = (\<lambda>i j. sum_list (map (\<lambda>k. entry A i k * entry B k j)
                                             (py_range 0 (ncols A))))\<rparr>)"

definition mat_add :: "real mat \<Rightarrow> real mat \<Rightarrow> error + real mat" where
  "mat_add A B =
     (if nrows A \<noteq> nrows B \<or> ncols A \<noteq> ncols B then Inl ValueError
      else Inr \<lparr>nrows = nrows A, ncols = ncols A, entry = (\<lambda>i j. entry A i j + entry B i j)\<rparr>)"

definition mat_scale :: "real mat \<Rightarrow> real \<Rightarrow> real mat" where
  "mat_scale A c = A\<lparr>entry := (\<lambda>i j. entry A i j * c)\<rparr>"

text \<open>The column slice \<^verbatim>\<open>m[:, start:stop]\<close>, with Python's treatment of bounds that are
  negative or past the end.\<close>

definition slice_bound :: "int \<Rightarrow> int \<Rightarrow> int" where
  "slice_bound n i = (if i < 0 then max 0 (i + n) else min i n)"

definition col_slice :: "real mat \<Rightarrow> int \<Rightarrow> int \<Rightarrow> real mat" where
  "col_slice A start stop =
     (let a = slice_bound (ncols A) start; b = slice_bound (ncols A) stop
      in \<lparr>nrows = nrows A, ncols = max 0 (b - a), entry = (\<lambda>i j. entry A i (j + a))\<rparr>)"

text \<open>Line 555: \<^verbatim>\<open>np.allclose(kernel, np.tile(kernel[0, 0], kernel.shape), rtol=1e-08)\<close>
  with the default absolute tolerance 1e-08.\<close>

definition allclose_first :: "real mat \<Rightarrow> bool" where
  "allclose_first kern =
     list_all (\<lambda>i. list_all (\<lambda>j. \<bar>entry kern i j - entry kern 0 0\<bar>
                                    \<le> 1 / 10 ^ 8 + 1 / 10 ^ 8 * \<bar>entry kern 0 0\<bar>)
                        (py_range 0 (ncols kern)))
       (py_range 0 (nrows kern))"

text \<open>Lines 562-569: the branch for a constant kernel.\<close>

definition xcorr2_constant :: "real mat \<Rightarrow> real mat \<Rightarrow> real \<Rightarrow> error + real mat" where
  "xcorr2_constant signal kern constant_kernel =
     (let sm = nrows signal; sn = ncols signal; km = nrows kern; kn = ncols kern
      in case sp_diags (replicate (nat km) 1) (py_range 0 km) (sn - km + 1) sm of
           Inl e \<Rightarrow> Inl e
         | Inr l_subkernel_sp \<Rightarrow>
            (case sp_diags (replicate (nat kn) 1) (map uminus (py_range 0 kn)) sn (sm - kn + 1) of
               Inl e \<Rightarrow> Inl e
             | Inr r_subkernel_sp \<Rightarrow>
                (case matmul l_subkernel_sp signal of
                   Inl e \<Rightarrow> Inl e
                 | Inr ls \<Rightarrow>
                    (case matmul ls r_subkernel_sp of
                       Inl e \<Rightarrow> Inl e
                     | Inr out \<Rightarrow> Inr (mat_scale out constant_kernel)))))"

text \<open>Lines 572-576: the general branch, one step per kernel column \<open>kj\<close>.\<close>

fun xcorr2_general :: "real mat \<Rightarrow> real mat \<Rightarrow> int list \<Rightarrow> real mat \<Rightarrow> error + real mat" where
  "xcorr2_general signal kern [] out = Inr out"
| "xcorr2_general signal kern (kj # kjs) out =
     (let sm = nrows signal; sn = ncols signal; km = nrows kern; kn = ncols kern
      in case sp_diags (map (\<lambda>i. entry kern i kj) (py_range 0 km)) (py_range 0 km)
                (sn - km + 1) sm of
           Inl e \<Rightarrow> Inl e
         | Inr subkernel_sp \<Rightarrow>
            (case matmul subkernel_sp (col_slice signal kj (sn - kn + 1 + kj)) of
               Inl e \<Rightarrow> Inl e
             | Inr prd \<Rightarrow>
                (case mat_add out prd of
                   Inl e \<Rightarrow> Inl e
                 | Inr out' \<Rightarrow> xcorr2_general signal kern kjs out')))"

text \<open>Lines 583-591: small values are set to zero, then the result is moved by the half
  kernel into a matrix of the shape of the signal. The coo constructor refuses a stored
  entry outside the shape.\<close>

definition drop_small :: "real mat \<Rightarrow> real \<Rightarrow> real mat" where
  "drop_small out threshold =
     out\<lparr>entry := (\<lambda>i j. if entry out i j < threshold then 0 else entry out i j)\<rparr>"

definition add_margins :: "real mat \<Rightarrow> int \<Rightarrow> int \<Rightarrow> int \<Rightarrow> int \<Rightarrow> error + real mat" where
  "add_margins out kh kw sm sn =
     (if list_ex (\<lambda>i. list_ex (\<lambda>j. entry out i j \<noteq> 0 \<and>
                                     (i + kh < 0 \<or> sm \<le> i + kh \<or> j + kw < 0 \<or> sn \<le> j + kw))
                        (py_range 0 (ncols out)))
           (py_range 0 (nrows out))
      then Inl ValueError
      else Inr \<lparr>nrows = sm, ncols = sn,
                entry = (\<lambda>i j. if 0 \<le> i - kh \<and> i - kh < nrows out \<and> 0 \<le> j - kw \<and> j - kw < ncols out
                                then entry out (i - kh) (j - kw) else 0)\<rparr>)"

definition xcorr2 :: "array2d \<Rightarrow> array2d \<Rightarrow> real \<Rightarrow> error + real mat" where
  "xcorr2 signal kern threshold =
     (let sm = nrows (arr signal); sn = ncols (arr signal);
          km = nrows (arr kern); kn = ncols (arr kern);
          kh = (km - 1) div 2;
          kw = (kn - 1) div 2
      in if \<not> issparse signal then Inl ValueError
         else if issparse kern then Inl ValueError
         else if km > sm \<or> sn > sn then Inl ValueError
         else if km \<le> 0 \<or> kn \<le> 0 then Inl IndexError
         else
           (case new_sparse (sm - km + 1) (sn - kn + 1) of
              Inl e \<Rightarrow> Inl e
            | Inr out \<Rightarrow>
               (case (if allclose_first (arr kern)
                      then xcorr2_constant (arr signal) (arr kern) (entry (arr kern) 0 0)
                      else xcorr2_general (arr signal) (arr kern) (py_range 0 kn) out) of
                  Inl e \<Rightarrow> Inl e
                | Inr out \<Rightarrow> add_margins (drop_small out threshold) kh kw sm sn)))"

text \<open>A numpy float64 after the division of line 651: a finite value, an infinity or
  nan.\<close>

datatype npfloat = Finite real | PosInf | NegInf | NaN

definition np_divide :: "real \<Rightarrow> real \<Rightarrow> npfloat" where
  "np_divide x d =
     (if d = 0 then (if x > 0 then PosInf else if x < 0 then NegInf else NaN)
      else Finite (x / d))"

fun clip_negative :: "npfloat \<Rightarrow> npfloat" where
  "clip_negative (Finite x) = Finite (if x < 0 then 0 else x)"
| "clip_negative NegInf = Finite 0"
| "clip_negative PosInf = PosInf"
| "clip_negative NaN = NaN"

text \<open>Lines 627-630: \<^verbatim>\<open>signal.setdiag(signal.diagonal(i), -i)\<close> for \<open>i\<close> from 1 to the
  kernel height - 1.\<close>

fun mirror_diagonals :: "int list \<Rightarrow> real mat \<Rightarrow> error + real mat" where
  "mirror_diagonals [] signal = Inr signal"
| "mirror_diagonals (i # rest) signal =
     (if i \<ge> nrows signal then Inl ValueError
      else mirror_diagonals rest
             (signal\<lparr>entry := (\<lambda>r c. if r - c = i \<and> 0 \<le> c \<and>
                                          c < min (min (nrows signal - i) (ncols signal))
                                                  (max 0 (min (nrows signal) (ncols signal - i)))
                                       then entry signal c r else entry signal r c)\<rparr>))"

text \<open>\<^verbatim>\<open>corrcoef2d\<close>. \<^verbatim>\<open>preproc.diag_trim\<close> is not part of the sources and is a
  parameter. The test of lines 622-623 builds a ValueError without raising it, so it has
  no effect.\<close>

definition corrcoef2d ::
  "(npfloat mat \<Rightarrow> int \<Rightarrow> npfloat mat) \<Rightarrow> array2d \<Rightarrow> array2d \<Rightarrow> int option \<Rightarrow> bool \<Rightarrow>
   error + npfloat mat" where
  "corrcoef2d diag_trim signal kern max_dist sym_upper =
     (case (if sym_upper
            then (if \<not> issparse signal then Inl AttributeError
                  else map_sum id Sparse
                         (mirror_diagonals (py_range 1 (nrows (arr kern))) (arr signal)))
            else Inr signal) of
        Inl e \<Rightarrow> Inl e
      | Inr signal \<Rightarrow>
         (case xcorr2 signal kern (1 / 10 ^ 4) of
            Inl e \<Rightarrow> Inl e
          | Inr conv0 \<Rightarrow>
             (let kernel1 = Dense ((arr kern)\<lparr>entry := (\<lambda>i j. 1)\<rparr>);
                  signal_sq = Sparse ((arr signal)\<lparr>entry := (\<lambda>i j. (entry (arr signal) i j)\<^sup>2)\<rparr>)
              in case xcorr2 signal_sq kernel1 (1 / 10 ^ 4) of
                   Inl e \<Rightarrow> Inl e
                 | Inr signal2 \<Rightarrow>
                    (let kernel2 = sum_list (map (\<lambda>i. sum_list (map (\<lambda>j. (entry (arr kern) i j)\<^sup>2)
                                                          (py_range 0 (ncols (arr kern)))))
                                               (py_range 0 (nrows (arr kern))));
                         denom = (\<lambda>i j. sqrt (entry signal2 i j * kernel2));
                         ksize = real_of_int (nrows (arr kern) * ncols (arr kern));
                         kernel_n = Dense ((arr kern)\<lparr>entry := (\<lambda>i j. entry (arr kern) i j / ksize)\<rparr>)
                     in case xcorr2 signal kernel_n (1 / 10 ^ 4) of
                          Inl e \<Rightarrow> Inl e
                        | Inr conv \<Rightarrow>
                           (let divided = (\<lambda>i j. if entry conv i j \<noteq> 0
                                                  then np_divide (entry conv i j) (denom i j)
                                                  else Finite 0);
                                clipped = \<lparr>nrows = nrows conv, ncols = ncols conv,
                                           entry = (\<lambda>i j. clip_negative (divided i j))\<rparr>;
                                trimmed = (case max_dist of None \<Rightarrow> clipped
                                           | Some d \<Rightarrow> diag_trim clipped d)
                            in Inr (trimmed\<lparr>entry := (\<lambda>i j. if i \<le> j then entry trimmed i j
                                                              else Finite 0)\<rparr>))))))"

text \<open>The entries of a matrix as a list of rows.\<close>

definition dense_of :: "'a mat \<Rightarrow> 'a list list" where
  "dense_of m = map (\<lambda>i. map (\<lambda>j. entry m i j) (py_range 0 (ncols m))) (py_range 0 (nrows m))"

text \<open>Concrete signals and kernels used to evaluate the correlation.\<close>

definition ex_signal33 :: "real mat" where
  "ex_signal33 = \<lparr>nrows = 3, ncols = 3, entry = (\<lambda>i j. 1)\<rparr>"

definition ex_kernel14 :: "real mat" where
  "ex_kernel14 = \<lparr>nrows = 1, ncols = 4, entry = (\<lambda>i j. real_of_int j + 1)\<rparr>"

definition ex_signal23 :: "real mat" where
  "ex_signal23 = \<lparr>nrows = 2, ncols = 3, entry = (\<lambda>i j. 1)\<rparr>"

definition ex_kernel11 :: "real \<Rightarrow> real mat" where
  "ex_kernel11 c = \<lparr>nrows = 1, ncols = 1, entry = (\<lambda>i j. c)\<rparr>"

definition ex_signal_small :: "real mat" where
  "ex_signal_small = \<lparr>nrows = 2, ncols = 2, entry = (\<lambda>i j. if i = j then 5 / 1000 else 0)\<rparr>"

section \<open>Properties of validate_patterns\<close>

lemma broadcast_to_same: "length xs = n \<Longrightarrow> broadcast_to n xs = Inr xs"
  by (simp add: broadcast_to_def)

lemma broadcast_rows_same: "list_all (\<lambda>r. length r = w) rs \<Longrightarrow> broadcast_rows w rs = Inr rs"
  by (induction rs) (simp_all add: broadcast_to_same)

lemma length_py_range: "length (py_range a b) = nat (b - a)"
  by (simp add: py_range_def)

lemma odd_half: "odd (w::int) \<Longrightarrow> 0 < w \<Longrightarrow> nat ((p + (w div 2 + 1)) - (p - (w div 2 + 1) + 1)) = nat w"
proof -
  assume "odd w"
  then have "2 * (w div 2) + 1 = w" by simp
  then have "(p + (w div 2 + 1)) - (p - (w div 2 + 1) + 1) = w" by linarith
  then show ?thesis by simp
qed

lemma assign_window_same:
  assumes "odd win_h" "0 < win_h" "odd win_w" "0 < win_w"
  shows "assign_window (nat win_h) (nat win_w)
           (pattern_window matrix (win_h div 2 + 1) (win_w div 2 + 1) p1 p2) =
         Inr (pattern_window matrix (win_h div 2 + 1) (win_w div 2 + 1) p1 p2)"
proof -
  let ?pw = "pattern_window matrix (win_h div 2 + 1) (win_w div 2 + 1) p1 p2"
  have len: "length ?pw = nat win_h"
    using assms(1,2) by (simp add: pattern_window_def win_rows_def length_py_range odd_half)
  have rows: "list_all (\<lambda>r. length r = nat win_w) ?pw"
    using assms(3,4) by (simp add: pattern_window_def win_cols_def length_py_range odd_half list_all_iff)
  show ?thesis
    by (simp add: assign_window_def broadcast_rows_same [OF rows] broadcast_to_same [OF len])
qed

lemma getitem_in_range:
  "0 \<le> i \<Longrightarrow> i < nrows m \<Longrightarrow> 0 \<le> j \<Longrightarrow> j < ncols m \<Longrightarrow> getitem m i j = Inr (entry m i j)"
  by (simp add: getitem_def)

lemma validate_step_eq:
  assumes "odd win_h" "0 < win_h" "odd win_w" "0 < win_w"
      and "0 \<le> fst l" "fst l < nrows conv_mat" "0 \<le> snd l" "snd l < ncols conv_mat"
  shows "validate_step matrix conv_mat dr dc win_h win_w perc st i l =
     Inr (if accepted matrix (dr, dc) (win_h, win_w) perc l
          then st\<lparr>vs_score := (vs_score st)[i := entry conv_mat (fst l) (snd l)],
                  vs_windows := (vs_windows st)[i := pattern_window matrix (win_h div 2 + 1) (win_w div 2 + 1)
                       (min (fst l) (snd l)) (max (fst l) (snd l))]\<rparr>
          else st\<lparr>vs_blacklist := vs_blacklist st @ [i]\<rparr>)"
proof -
  have mm: "(if fst l > snd l then snd l else fst l) = min (fst l) (snd l)"
           "(if fst l > snd l then fst l else snd l) = max (fst l) (snd l)"
    by (simp_all add: min_def max_def)
  show ?thesis
    unfolding validate_step_def accepted_def Let_def mm
    by (simp add: getitem_in_range [OF assms(5-8)] assign_window_same [OF assms(1-4)])
qed

lemma validate_loop_inv:
  assumes odd: "odd win_h" "0 < win_h" "odd win_w" "0 < win_w"
      and rng: "list_all (\<lambda>l. 0 \<le> fst l \<and> fst l < nrows conv_mat \<and> 0 \<le> snd l \<and> snd l < ncols conv_mat) ls"
      and len: "i + length ls \<le> length (vs_score st)" "i + length ls \<le> length (vs_windows st)"
  shows "\<exists>st'. validate_loop matrix conv_mat dr dc win_h win_w perc i ls st = Inr st' \<and>
           length (vs_score st') = length (vs_score st) \<and>
           length (vs_windows st') = length (vs_windows st) \<and>
           (\<forall>j<i. vs_score st' ! j = vs_score st ! j \<and> vs_windows st' ! j = vs_windows st ! j) \<and>
           (\<forall>k<length ls. accepted matrix (dr, dc) (win_h, win_w) perc (ls ! k) \<longrightarrow>
                vs_score st' ! (i + k) = entry conv_mat (fst (ls ! k)) (snd (ls ! k)) \<and>
                vs_windows st' ! (i + k) =
                  pattern_window matrix (win_h div 2 + 1) (win_w div 2 + 1)
                     (min (fst (ls ! k)) (snd (ls ! k))) (max (fst (ls ! k)) (snd (ls ! k)))) \<and>
           set (vs_blacklist st') =
             set (vs_blacklist st) \<union>
             {i + k | k. k < length ls \<and> \<not> accepted matrix (dr, dc) (win_h, win_w) perc (ls ! k)}"
  using rng len
proof (induction ls arbitrary: i st)
  case Nil
  then show ?case by simp
next
  case (Cons l ls)
  let ?acc = "accepted matrix (dr, dc) (win_h, win_w) perc"
  let ?win = "\<lambda>l. pattern_window matrix (win_h div 2 + 1) (win_w div 2 + 1)
                     (min (fst l) (snd l)) (max (fst l) (snd l))"
  let ?st1 = "if ?acc l
          then st\<lparr>vs_score := (vs_score st)[i := entry conv_mat (fst l) (snd l)],
                  vs_windows := (vs_windows st)[i := ?win l]\<rparr>
          else st\<lparr>vs_blacklist := vs_blacklist st @ [i]\<rparr>"
  from Cons.prems(1) have lr: "0 \<le> fst l" "fst l < nrows conv_mat" "0 \<le> snd l" "snd l < ncols conv_mat"
    and rest: "list_all (\<lambda>l. 0 \<le> fst l \<and> fst l < nrows conv_mat \<and> 0 \<le> snd l \<and> snd l < ncols conv_mat) ls"
    by simp_all
  have step: "validate_step matrix conv_mat dr dc win_h win_w perc st i l = Inr ?st1"
    by (rule validate_step_eq [OF odd lr])
  have l1: "length (vs_score ?st1) = length (vs_score st)" "length (vs_windows ?st1) = length (vs_windows st)"
    by simp_all
  have len1: "Suc i + length ls \<le> length (vs_score ?st1)" "Suc i + length ls \<le> length (vs_windows ?st1)"
    using Cons.prems(2,3) by simp_all
  from Cons.IH [OF rest len1] obtain st' where
    run: "validate_loop matrix conv_mat dr dc win_h win_w perc (Suc i) ls ?st1 = Inr st'"
    and ls': "length (vs_score st') = length (vs_score ?st1)" "length (vs_windows st') = length (vs_windows ?st1)"
    and old: "\<forall>j<Suc i. vs_score st' ! j = vs_score ?st1 ! j \<and> vs_windows st' ! j = vs_windows ?st1 ! j"
    and new: "\<forall>k<length ls. ?acc (ls ! k) \<longrightarrow>
                vs_score st' ! (Suc i + k) = entry conv_mat (fst (ls ! k)) (snd (ls ! k)) \<and>
                vs_windows st' ! (Suc i + k) = ?win (ls ! k)"
    and bl: "set (vs_blacklist st') = set (vs_blacklist ?st1) \<union> {Suc i + k | k. k < length ls \<and> \<not> ?acc (ls ! k)}"
    by blast
  have i_lt: "i < length (vs_score st)" "i < length (vs_windows st)"
    using Cons.prems(2,3) by simp_all
  have A: "validate_loop matrix conv_mat dr dc win_h win_w perc i (l # ls) st = Inr st'"
    using step run by simp
  have B: "length (vs_score st') = length (vs_score st)" "length (vs_windows st') = length (vs_windows st)"
    using ls' l1 by simp_all
  have C: "\<forall>j<i. vs_score st' ! j = vs_score st ! j \<and> vs_windows st' ! j = vs_windows st ! j"
  proof (intro allI impI)
    fix j assume "j < i"
    then have "vs_score st' ! j = vs_score ?st1 ! j" "vs_windows st' ! j = vs_windows ?st1 ! j"
      using old by simp_all
    moreover have "vs_score ?st1 ! j = vs_score st ! j" "vs_windows ?st1 ! j = vs_windows st ! j"
      using \<open>j < i\<close> by simp_all
    ultimately show "vs_score st' ! j = vs_score st ! j \<and> vs_windows st' ! j = vs_windows st ! j"
      by simp
  qed
  have D: "\<forall>k<length (l # ls). ?acc ((l # ls) ! k) \<longrightarrow>
                vs_score st' ! (i + k) = entry conv_mat (fst ((l # ls) ! k)) (snd ((l # ls) ! k)) \<and>
                vs_windows st' ! (i + k) = ?win ((l # ls) ! k)"
  proof (intro allI impI)
    fix k assume k: "k < length (l # ls)" and acc: "?acc ((l # ls) ! k)"
    show "vs_score st' ! (i + k) = entry conv_mat (fst ((l # ls) ! k)) (snd ((l # ls) ! k)) \<and>
          vs_windows st' ! (i + k) = ?win ((l # ls) ! k)"
    proof (cases k)
      case 0
      then have al: "?acc l" using acc by simp
      have "vs_score st' ! i = vs_score ?st1 ! i" "vs_windows st' ! i = vs_windows ?st1 ! i"
        using old by simp_all
      then show ?thesis using 0 al i_lt by simp
    next
      case (Suc k')
      then have "k' < length ls" "?acc (ls ! k')" using k acc by simp_all
      then show ?thesis using new Suc by simp
    qed
  qed
  have E: "set (vs_blacklist st') =
             set (vs_blacklist st) \<union> {i + k | k. k < length (l # ls) \<and> \<not> ?acc ((l # ls) ! k)}"
  proof -
    have split: "{i + k | k. k < length (l # ls) \<and> \<not> ?acc ((l # ls) ! k)} =
                 (if ?acc l then {} else {i}) \<union> {Suc i + k | k. k < length ls \<and> \<not> ?acc (ls ! k)}"
    proof (rule set_eqI, rule iffI)
      fix x assume "x \<in> {i + k | k. k < length (l # ls) \<and> \<not> ?acc ((l # ls) ! k)}"
      then obtain k where k: "x = i + k" "k < length (l # ls)" "\<not> ?acc ((l # ls) ! k)" by blast
      show "x \<in> (if ?acc l then {} else {i}) \<union> {Suc i + k | k. k < length ls \<and> \<not> ?acc (ls ! k)}"
      proof (cases k)
        case 0 then show ?thesis using k by simp
      next
        case (Suc k')
        then have "x = Suc i + k'" "k' < length ls" "\<not> ?acc (ls ! k')" using k by simp_all
        then show ?thesis by blast
      qed
    next
      fix x assume "x \<in> (if ?acc l then {} else {i}) \<union> {Suc i + k | k. k < length ls \<and> \<not> ?acc (ls ! k)}"
      then consider "\<not> ?acc l" "x = i" | k' where "x = Suc i + k'" "k' < length ls" "\<not> ?acc (ls ! k')"
        by (auto split: if_splits)
      then show "x \<in> {i + k | k. k < length (l # ls) \<and> \<not> ?acc ((l # ls) ! k)}"
      proof cases
        case 1
        then have "x = i + 0 \<and> 0 < length (l # ls) \<and> \<not> ?acc ((l # ls) ! 0)" by simp
        then show ?thesis by blast
      next
        case 2
        then have "x = i + Suc k' \<and> Suc k' < length (l # ls) \<and> \<not> ?acc ((l # ls) ! Suc k')" by simp
        then show ?thesis by blast
      qed
    qed
    have "set (vs_blacklist ?st1) = set (vs_blacklist st) \<union> (if ?acc l then {} else {i})"
      by simp
    then show ?thesis using bl split by auto
  qed
  from A B C D E show ?case by blast
qed

lemma filter_by_index:
  "map (\<lambda>i. xs ! i) (filter (\<lambda>i. P (xs ! i)) [0..<length xs]) = filter P xs"
proof (induction xs rule: rev_induct)
  case Nil
  then show ?case by simp
next
  case (snoc x xs)
  have f: "filter (\<lambda>i. P ((xs @ [x]) ! i)) [0..<length xs] = filter (\<lambda>i. P (xs ! i)) [0..<length xs]"
    by (rule filter_cong) (simp_all add: nth_append)
  have m: "map (\<lambda>i. (xs @ [x]) ! i) (filter (\<lambda>i. P (xs ! i)) [0..<length xs]) =
           map (\<lambda>i. xs ! i) (filter (\<lambda>i. P (xs ! i)) [0..<length xs])"
    by (rule map_cong) (simp_all add: nth_append)
  show ?case using snoc.IH by (simp add: f m)
qed

lemma validate_patterns_table:
  assumes odd: "odd win_h" "0 < win_h" "odd win_w" "0 < win_w"
      and rng: "list_all (\<lambda>l. 0 \<le> fst l \<and> fst l < nrows conv_mat \<and> 0 \<le> snd l \<and> snd l < ncols conv_mat) coords"
  shows "validate_patterns coords matrix conv_mat detectable_bins (win_h, win_w) max_undetected_perc =
           Inr (map (\<lambda>l. (fst l, snd l, entry conv_mat (fst l) (snd l)))
                  (filter (accepted matrix detectable_bins (win_h, win_w) max_undetected_perc) coords),
                map (\<lambda>l. pattern_window matrix (win_h div 2 + 1) (win_w div 2 + 1)
                             (min (fst l) (snd l)) (max (fst l) (snd l)))
                  (filter (accepted matrix detectable_bins (win_h, win_w) max_undetected_perc) coords))"
proof -
  let ?n = "length coords"
  let ?acc = "accepted matrix detectable_bins (win_h, win_w) max_undetected_perc"
  let ?win = "\<lambda>l. pattern_window matrix (win_h div 2 + 1) (win_w div 2 + 1)
                     (min (fst l) (snd l)) (max (fst l) (snd l))"
  let ?row = "\<lambda>l. (fst l, snd l, entry conv_mat (fst l) (snd l))"
  let ?init = "\<lparr>vs_score = replicate ?n 0,
                 vs_windows = replicate ?n (replicate (nat win_h) (replicate (nat win_w) 0)),
                 vs_blacklist = []\<rparr>"
  have "\<exists>st'. validate_loop matrix conv_mat (fst detectable_bins) (snd detectable_bins)
                  win_h win_w max_undetected_perc 0 coords ?init = Inr st' \<and>
           length (vs_score st') = length (vs_score ?init) \<and>
           length (vs_windows st') = length (vs_windows ?init) \<and>
           (\<forall>j<0. vs_score st' ! j = vs_score ?init ! j \<and> vs_windows st' ! j = vs_windows ?init ! j) \<and>
           (\<forall>k<length coords. accepted matrix (fst detectable_bins, snd detectable_bins) (win_h, win_w) max_undetected_perc (coords ! k) \<longrightarrow>
                vs_score st' ! (0 + k) = entry conv_mat (fst (coords ! k)) (snd (coords ! k)) \<and>
                vs_windows st' ! (0 + k) = ?win (coords ! k)) \<and>
           set (vs_blacklist st') =
             set (vs_blacklist ?init) \<union>
             {0 + k | k. k < length coords \<and> \<not> accepted matrix (fst detectable_bins, snd detectable_bins) (win_h, win_w) max_undetected_perc (coords ! k)}"
    by (rule validate_loop_inv [OF odd rng]) simp_all
  then obtain st where
    run: "validate_loop matrix conv_mat (fst detectable_bins) (snd detectable_bins)
                  win_h win_w max_undetected_perc 0 coords ?init = Inr st"
    and new: "\<forall>k<?n. ?acc (coords ! k) \<longrightarrow>
                vs_score st ! k = entry conv_mat (fst (coords ! k)) (snd (coords ! k)) \<and>
                vs_windows st ! k = ?win (coords ! k)"
    and bl: "set (vs_blacklist st) = {k. k < ?n \<and> \<not> ?acc (coords ! k)}"
    by auto
  let ?keep = "filter (\<lambda>i. \<not> map (\<lambda>i. i \<in> set (vs_blacklist st)) [0..<?n] ! i) [0..<?n]"
  have keep: "?keep = filter (\<lambda>i. ?acc (coords ! i)) [0..<?n]"
    by (rule filter_cong) (simp_all add: bl)
  have tab: "map (\<lambda>i. (fst (coords ! i), snd (coords ! i), vs_score st ! i)) ?keep =
             map ?row (filter ?acc coords)"
  proof -
    have "map (\<lambda>i. (fst (coords ! i), snd (coords ! i), vs_score st ! i)) ?keep =
          map (\<lambda>i. ?row (coords ! i)) (filter (\<lambda>i. ?acc (coords ! i)) [0..<?n])"
      unfolding keep by (rule map_cong) (simp_all add: new)
    also have "\<dots> = map ?row (map (\<lambda>i. coords ! i) (filter (\<lambda>i. ?acc (coords ! i)) [0..<?n]))"
      by simp
    also have "\<dots> = map ?row (filter ?acc coords)"
      by (simp only: filter_by_index)
    finally show ?thesis .
  qed
  have wins: "map (\<lambda>i. vs_windows st ! i) ?keep = map ?win (filter ?acc coords)"
  proof -
    have "map (\<lambda>i. vs_windows st ! i) ?keep =
          map (\<lambda>i. ?win (coords ! i)) (filter (\<lambda>i. ?acc (coords ! i)) [0..<?n])"
      unfolding keep by (rule map_cong) (simp_all add: new)
    also have "\<dots> = map ?win (map (\<lambda>i. coords ! i) (filter (\<lambda>i. ?acc (coords ! i)) [0..<?n]))"
      by simp
    also have "\<dots> = map ?win (filter ?acc coords)"
      by (simp only: filter_by_index)
    finally show ?thesis .
  qed
  show ?thesis
    unfolding validate_patterns_def Let_def fst_conv snd_conv
    by (simp only: run sum.case tab wins)
qed

lemma upto_concrete:
  "[1..3] = [1,2,3::int]" "[4..6] = [4,5,6::int]" "[3..5] = [3,4,5::int]" "[6..8] = [6,7,8::int]"
  "[5..9] = [5,6,7,8,9::int]"
  by (simp_all add: upto_rec1)

lemma bounds_ok_rows:
  assumes "0 \<le> p - h" "p + h + 1 < n"
  shows "list_all (\<lambda>r. 0 \<le> r \<and> r < n) (py_range (p - h) (p + h + 1))"
  using assms by (auto simp add: py_range_def list_all_iff)

lemma bounds_ok_window:
  assumes "bounds_ok matrix (fst ks div 2 + 1) (snd ks div 2 + 1) (min (fst l) (snd l)) (max (fst l) (snd l))"
  shows "spec_window_within_bounds matrix ks l"
proof -
  let ?p1 = "min (fst l) (snd l)" and ?p2 = "max (fst l) (snd l)"
  let ?hh = "fst ks div 2 + 1" and ?hw = "snd ks div 2 + 1"
  from assms have a: "0 \<le> ?p1 - ?hh" "?p1 + ?hh + 1 < nrows matrix"
      "0 \<le> ?p2 - ?hw" "?p2 + ?hw + 1 < ncols matrix"
    unfolding bounds_ok_def by blast+
  show ?thesis
    unfolding spec_window_within_bounds_def Let_def
    using bounds_ok_rows [OF a(1,2)] bounds_ok_rows [OF a(3,4)] by blast
qed

lemma ex_missing:
  "tot_missing_pixels ex_matrix {0..9} {0..9} 2 2 2 5 = 0"
  "tot_missing_pixels ex_matrix {0..9} {0..9} 2 2 4 4 = 0"
  "tot_missing_pixels ex_matrix {0..9} {0..9} 2 2 7 7 = 0"
  by (simp_all add: tot_missing_pixels_def win_rows_def win_cols_def py_range_def pattern_window_def
        ex_matrix_def upto_concrete Let_def)

lemma ex_tot_pixels: "tot_pixels 2 2 p1 p2 = 9"
  by (simp add: tot_pixels_def win_rows_def win_cols_def py_range_def)

lemma ex_matrix_shape: "nrows ex_matrix = 10" "ncols ex_matrix = 10"
  by (simp_all add: ex_matrix_def)

lemma ex_accepted_5_2: "accepted ex_matrix ex_bins (3, 3) 50 (5, 2)"
  by (simp add: accepted_def ex_bins_def bounds_ok_def ex_missing ex_tot_pixels ex_matrix_shape)

lemma ex_accepted_4_4: "accepted ex_matrix ex_bins (3, 3) 50 (4, 4)"
  by (simp add: accepted_def ex_bins_def bounds_ok_def ex_missing ex_tot_pixels ex_matrix_shape)

lemma ex_accepted_2_5: "accepted ex_matrix ex_bins (3, 3) 50 (2, 5)"
  by (simp add: accepted_def ex_bins_def bounds_ok_def ex_missing ex_tot_pixels ex_matrix_shape)

lemma ex_rejected_1_1: "\<not> accepted ex_matrix ex_bins (3, 3) 50 (1, 1)"
  by (simp add: accepted_def bounds_ok_def ex_tot_pixels ex_matrix_shape)

lemma ex_rejected_7_7: "\<not> accepted ex_matrix ex_bins (3, 3) 50 (7, 7)"
  by (simp add: accepted_def bounds_ok_def ex_tot_pixels ex_matrix_shape)

lemma ex_window_5_2:
  "pattern_window ex_matrix 2 2 2 5 = [[1, 1, 1], [1, 1, 1], [1, 1, 1]]"
  by (simp add: pattern_window_def win_rows_def win_cols_def py_range_def upto_concrete ex_matrix_def)

lemma ex_window_4_4:
  "pattern_window ex_matrix 2 2 4 4 = [[1, 1, 1], [1, 1, 1], [1, 1, 1]]"
  by (simp add: pattern_window_def win_rows_def win_cols_def py_range_def upto_concrete ex_matrix_def)

lemma ex_conv_shape: "nrows ex_conv = 10" "ncols ex_conv = 10"
  by (simp_all add: ex_conv_def)

text \<open>
  Claim C7 (as amended). For every list of candidate coordinates (inside the correlation
  map) and an odd-sized kernel, \<^verbatim>\<open>validate_patterns\<close> returns the table and the
  window stack of exactly the accepted candidates, in their input order and aligned index
  for index. A candidate is accepted iff the guard of the code holds on the canonical
  coordinate (\<open>p1 - half_h \<ge> 0\<close>, \<open>p1 + half_h + 1 < rows\<close>, and the same for columns: a
  margin wider than the window that is read) and the missing fraction, the larger of the
  inclusion-exclusion estimate and the count of zero pixels over the pixels of the window,
  is strictly below \<open>max_undetected_perc / 100\<close>. Every accepted candidate has its window
  inside the matrix (also with the half-width of the specification), so a window past the
  bounds is always rejected.
\<close>

theorem validate_patterns_accepts:
  assumes "odd win_h" "0 < win_h" "odd win_w" "0 < win_w"
      and "list_all (\<lambda>l. 0 \<le> fst l \<and> fst l < nrows conv_mat \<and> 0 \<le> snd l \<and> snd l < ncols conv_mat) coords"
  shows "validate_patterns coords matrix conv_mat detectable_bins (win_h, win_w) max_undetected_perc =
           Inr (map (\<lambda>l. (fst l, snd l, entry conv_mat (fst l) (snd l)))
                  (filter (accepted matrix detectable_bins (win_h, win_w) max_undetected_perc) coords),
                map (\<lambda>l. pattern_window matrix (win_h div 2 + 1) (win_w div 2 + 1)
                             (min (fst l) (snd l)) (max (fst l) (snd l)))
                  (filter (accepted matrix detectable_bins (win_h, win_w) max_undetected_perc) coords))
         \<and> (\<forall>l. accepted matrix detectable_bins (win_h, win_w) max_undetected_perc l =
                 (bounds_ok matrix (win_h div 2 + 1) (win_w div 2 + 1) (min (fst l) (snd l)) (max (fst l) (snd l)) \<and>
                  spec_missing_fraction matrix detectable_bins (win_h, win_w) l < max_undetected_perc / 100))
         \<and> (\<forall>l. accepted matrix detectable_bins (win_h, win_w) max_undetected_perc l \<longrightarrow>
                  spec_window_within_bounds matrix (win_h, win_w) l)"
proof (intro conjI allI impI)
  show "validate_patterns coords matrix conv_mat detectable_bins (win_h, win_w) max_undetected_perc =
           Inr (map (\<lambda>l. (fst l, snd l, entry conv_mat (fst l) (snd l)))
                  (filter (accepted matrix detectable_bins (win_h, win_w) max_undetected_perc) coords),
                map (\<lambda>l. pattern_window matrix (win_h div 2 + 1) (win_w div 2 + 1)
                             (min (fst l) (snd l)) (max (fst l) (snd l)))
                  (filter (accepted matrix detectable_bins (win_h, win_w) max_undetected_perc) coords))"
    by (rule validate_patterns_table [OF assms])
next
  fix l
  show "accepted matrix detectable_bins (win_h, win_w) max_undetected_perc l =
          (bounds_ok matrix (win_h div 2 + 1) (win_w div 2 + 1) (min (fst l) (snd l)) (max (fst l) (snd l)) \<and>
           spec_missing_fraction matrix detectable_bins (win_h, win_w) l < max_undetected_perc / 100)"
    by (simp add: accepted_def spec_missing_fraction_def Let_def)
next
  fix l
  assume "accepted matrix detectable_bins (win_h, win_w) max_undetected_perc l"
  then have "bounds_ok matrix (fst (win_h, win_w) div 2 + 1) (snd (win_h, win_w) div 2 + 1)
               (min (fst l) (snd l)) (max (fst l) (snd l))"
    by (simp add: accepted_def Let_def)
  then show "spec_window_within_bounds matrix (win_h, win_w) l"
    by (rule bounds_ok_window)
qed

theorem validate_patterns_accepts_witness:
  "validate_patterns [(5, 2), (1, 1), (4, 4)] ex_matrix ex_conv ex_bins (3, 3) 50 =
     Inr ([(5, 2, 9 / 10), (4, 4, 1 / 2)],
          [[[1, 1, 1], [1, 1, 1], [1, 1, 1]], [[1, 1, 1], [1, 1, 1], [1, 1, 1]]])"
proof -
  have rng: "list_all (\<lambda>l. 0 \<le> fst l \<and> fst l < nrows ex_conv \<and> 0 \<le> snd l \<and> snd l < ncols ex_conv)
               [(5, 2), (1, 1), (4, 4)]"
    by (simp add: ex_conv_shape)
  have "validate_patterns [(5, 2), (1, 1), (4, 4)] ex_matrix ex_conv ex_bins (3, 3) 50 =
           Inr (map (\<lambda>l. (fst l, snd l, entry ex_conv (fst l) (snd l)))
                  (filter (accepted ex_matrix ex_bins (3, 3) 50) [(5, 2), (1, 1), (4, 4)]),
                map (\<lambda>l. pattern_window ex_matrix (3 div 2 + 1) (3 div 2 + 1)
                             (min (fst l) (snd l)) (max (fst l) (snd l)))
                  (filter (accepted ex_matrix ex_bins (3, 3) 50) [(5, 2), (1, 1), (4, 4)]))"
    using validate_patterns_accepts [of 3 3 ex_conv "[(5, 2), (1, 1), (4, 4)]" ex_matrix ex_bins 50] rng
    by simp
  then show ?thesis
    by (simp add: ex_accepted_5_2 ex_accepted_4_4 ex_rejected_1_1 ex_window_5_2 ex_window_4_4)
       (simp add: ex_conv_def)
qed

text \<open>
  The claim as stated (accepted iff the window lies within the bounds and the missing
  fraction is below the tolerance) fails: around (7, 7) the window of the 3 x 3 kernel,
  even with the half-width 2 of the specification, covers rows and columns 5..9 of the
  10 x 10 map and has no missing pixel, yet the candidate is dropped.
\<close>

theorem validate_patterns_margin_counterexample:
  "spec_window_within_bounds ex_matrix (3, 3) (7, 7) \<and>
   spec_missing_fraction ex_matrix ex_bins (3, 3) (7, 7) < 50 / 100 \<and>
   validate_patterns [(7, 7)] ex_matrix ex_conv ex_bins (3, 3) 50 = Inr ([], [])"
proof (intro conjI)
  show "spec_window_within_bounds ex_matrix (3, 3) (7, 7)"
    by (simp add: spec_window_within_bounds_def py_range_def upto_concrete ex_matrix_shape)
  show "spec_missing_fraction ex_matrix ex_bins (3, 3) (7, 7) < 50 / 100"
    by (simp add: spec_missing_fraction_def ex_bins_def ex_missing ex_tot_pixels)
  have rng: "list_all (\<lambda>l. 0 \<le> fst l \<and> fst l < nrows ex_conv \<and> 0 \<le> snd l \<and> snd l < ncols ex_conv) [(7, 7)]"
    by (simp add: ex_conv_shape)
  show "validate_patterns [(7, 7)] ex_matrix ex_conv ex_bins (3, 3) 50 = Inr ([], [])"
    using validate_patterns_table [of 3 3 ex_conv "[(7, 7)]" ex_matrix ex_bins 50] rng
    by (simp add: ex_rejected_7_7)
qed

text \<open>
  Claim C2 (as amended). Every row of the table returned by \<^verbatim>\<open>validate_patterns\<close>
  carries bin1 and bin2 exactly as the candidate was given in the input: the swap to
  \<open>row \<le> col\<close> is applied to the position of the window and to the bounds test only. So
  bin1 \<open>\<le>\<close> bin2 holds for every row of the table whenever it holds for every input
  candidate.
\<close>

theorem validate_patterns_keeps_input_coordinates:
  assumes "odd win_h" "0 < win_h" "odd win_w" "0 < win_w"
      and "list_all (\<lambda>l. 0 \<le> fst l \<and> fst l < nrows conv_mat \<and> 0 \<le> snd l \<and> snd l < ncols conv_mat) coords"
  shows "\<exists>tab wins.
           validate_patterns coords matrix conv_mat detectable_bins (win_h, win_w) max_undetected_perc =
             Inr (tab, wins) \<and>
           map (\<lambda>r. (fst r, fst (snd r))) tab =
             filter (accepted matrix detectable_bins (win_h, win_w) max_undetected_perc) coords \<and>
           (list_all (\<lambda>l. fst l \<le> snd l) coords \<longrightarrow> list_all (\<lambda>r. fst r \<le> fst (snd r)) tab)"
proof -
  let ?acc = "accepted matrix detectable_bins (win_h, win_w) max_undetected_perc"
  let ?tab = "map (\<lambda>l. (fst l, snd l, entry conv_mat (fst l) (snd l))) (filter ?acc coords)"
  let ?wins = "map (\<lambda>l. pattern_window matrix (win_h div 2 + 1) (win_w div 2 + 1)
                             (min (fst l) (snd l)) (max (fst l) (snd l))) (filter ?acc coords)"
  have run: "validate_patterns coords matrix conv_mat detectable_bins (win_h, win_w) max_undetected_perc =
               Inr (?tab, ?wins)"
    by (rule validate_patterns_table [OF assms])
  have cols: "map (\<lambda>r. (fst r, fst (snd r))) ?tab = filter ?acc coords"
    by (simp add: comp_def)
  have ord: "list_all (\<lambda>l. fst l \<le> snd l) coords \<longrightarrow> list_all (\<lambda>r. fst r \<le> fst (snd r)) ?tab"
    by (auto simp add: list_all_iff)
  from run cols ord show ?thesis by blast
qed

theorem validate_patterns_keeps_input_coordinates_witness:
  "\<exists>tab wins.
     validate_patterns [(2, 5), (1, 1)] ex_matrix ex_conv ex_bins (3, 3) 50 = Inr (tab, wins) \<and>
     map (\<lambda>r. (fst r, fst (snd r))) tab = filter (accepted ex_matrix ex_bins (3, 3) 50) [(2, 5), (1, 1)] \<and>
     list_all (\<lambda>r. fst r \<le> fst (snd r)) tab"
proof -
  have rng: "list_all (\<lambda>l. 0 \<le> fst l \<and> fst l < nrows ex_conv \<and> 0 \<le> snd l \<and> snd l < ncols ex_conv)
               [(2, 5), (1, 1)]"
    by (simp add: ex_conv_shape)
  have ord: "list_all (\<lambda>l. fst l \<le> snd l) [(2, 5), (1, 1::int)]"
    by simp
  show ?thesis
    using validate_patterns_keeps_input_coordinates
            [of 3 3 ex_conv "[(2, 5), (1, 1)]" ex_matrix ex_bins 50] rng ord
    by (simp add: ex_accepted_2_5 ex_rejected_1_1)
qed

text \<open>
  The claim as stated fails: the candidate (5, 2) is accepted and recorded as bin1 = 5,
  bin2 = 2.
\<close>

theorem validate_patterns_not_canonical_counterexample:
  "validate_patterns [(5, 2)] ex_matrix ex_conv ex_bins (3, 3) 50 =
     Inr ([(5, 2, 9 / 10)], [[[1, 1, 1], [1, 1, 1], [1, 1, 1]]])"
proof -
  have rng: "list_all (\<lambda>l. 0 \<le> fst l \<and> fst l < nrows ex_conv \<and> 0 \<le> snd l \<and> snd l < ncols ex_conv) [(5, 2)]"
    by (simp add: ex_conv_shape)
  show ?thesis
    using validate_patterns_table [of 3 3 ex_conv "[(5, 2)]" ex_matrix ex_bins 50] rng
    by (simp add: ex_accepted_5_2 ex_window_5_2) (simp add: ex_conv_def)
qed

section \<open>Properties of label_connected_pixels_sparse\<close>

lemma merge_labels_inv:
  assumes len: "length reps = n"
      and le: "\<forall>v<n. reps ! v \<le> v"
      and idem: "\<forall>v<n. reps ! (reps ! v) = reps ! v"
      and e: "fst e < n" "snd e < n"
  shows "length (merge_labels reps e) = n \<and>
         (\<forall>v<n. merge_labels reps e ! v \<le> v) \<and>
         (\<forall>v<n. merge_labels reps e ! (merge_labels reps e ! v) = merge_labels reps e ! v)"
proof -
  let ?a = "reps ! fst e" and ?b = "reps ! snd e"
  let ?lo = "min ?a ?b" and ?hi = "max ?a ?b"
  let ?new = "merge_labels reps e"
  have new: "\<And>v. v < n \<Longrightarrow> ?new ! v = (if reps ! v = ?hi then ?lo else reps ! v)"
    using len by (simp add: merge_labels_def Let_def)
  have lo_fix: "reps ! ?lo = ?lo"
    using idem e by (simp add: min_def)
  have lo_lt: "?lo < n"
    using le e by (metis le_less_trans min.cobounded1 less_le_trans not_le_imp_less not_less)
  have L: "length ?new = n" using len by (simp add: merge_labels_def Let_def)
  have A: "\<forall>v<n. ?new ! v \<le> v"
  proof (intro allI impI)
    fix v assume v: "v < n"
    show "?new ! v \<le> v"
    proof (cases "reps ! v = ?hi")
      case True
      have "?lo \<le> ?hi" by simp
      also have "?hi \<le> v" using True le v by (metis)
      finally show ?thesis using new [OF v] True by simp
    next
      case False
      then show ?thesis using new [OF v] le v by simp
    qed
  qed
  have B: "\<forall>v<n. ?new ! (?new ! v) = ?new ! v"
  proof (intro allI impI)
    fix v assume v: "v < n"
    show "?new ! (?new ! v) = ?new ! v"
    proof (cases "reps ! v = ?hi")
      case True
      then have nv: "?new ! v = ?lo" using new [OF v] by simp
      have "?new ! ?lo = (if reps ! ?lo = ?hi then ?lo else reps ! ?lo)"
        using new [OF lo_lt] .
      then have "?new ! ?lo = ?lo" using lo_fix by simp
      then show ?thesis using nv by simp
    next
      case False
      then have nv: "?new ! v = reps ! v" using new [OF v] by simp
      have rv: "reps ! v < n" using le v by (meson le_less_trans)
      have "reps ! (reps ! v) = reps ! v" using idem v by simp
      then have "?new ! (reps ! v) = reps ! v"
        using new [OF rv] False by simp
      then show ?thesis using nv by simp
    qed
  qed
  from L A B show ?thesis by blast
qed

lemma foldl_merge_labels_inv:
  assumes "length reps = n" "\<forall>v<n. reps ! v \<le> v" "\<forall>v<n. reps ! (reps ! v) = reps ! v"
      and "list_all (\<lambda>e. fst e < n \<and> snd e < n) adj"
  shows "length (foldl merge_labels reps adj) = n \<and>
         (\<forall>v<n. foldl merge_labels reps adj ! v \<le> v) \<and>
         (\<forall>v<n. foldl merge_labels reps adj ! (foldl merge_labels reps adj ! v) =
                  foldl merge_labels reps adj ! v)"
  using assms
proof (induction adj arbitrary: reps)
  case Nil
  then show ?case by simp
next
  case (Cons e adj)
  from Cons.prems(4) have e: "fst e < n" "snd e < n" and rest: "list_all (\<lambda>e. fst e < n \<and> snd e < n) adj"
    by simp_all
  from merge_labels_inv [OF Cons.prems(1-3) e]
  have "length (merge_labels reps e) = n"
       "\<forall>v<n. merge_labels reps e ! v \<le> v"
       "\<forall>v<n. merge_labels reps e ! (merge_labels reps e ! v) = merge_labels reps e ! v"
    by blast+
  from Cons.IH [OF this rest] show ?case by simp
qed

lemma rank_sorted:
  "sorted_wrt (<) (xs::nat list) \<Longrightarrow>
   map (\<lambda>x. length (filter (\<lambda>r. r < x) xs)) xs = [0..<length xs]"
proof (induction xs rule: rev_induct)
  case Nil
  then show ?case by simp
next
  case (snoc x xs)
  from snoc.prems have s: "sorted_wrt (<) xs" and lt: "\<forall>y\<in>set xs. y < x"
    by (simp_all add: sorted_wrt_append)
  have a: "map (\<lambda>y. length (filter (\<lambda>r. r < y) (xs @ [x]))) xs =
           map (\<lambda>y. length (filter (\<lambda>r. r < y) xs)) xs"
    by (rule map_cong) (use lt in auto)
  have b: "filter (\<lambda>r. r < x) xs = xs"
    using lt by (simp add: filter_id_conv)
  have c: "length (filter (\<lambda>r. r < x) (xs @ [x])) = length xs"
    using b by simp
  have "map (\<lambda>y. length (filter (\<lambda>r. r < y) (xs @ [x]))) (xs @ [x]) =
        map (\<lambda>y. length (filter (\<lambda>r. r < y) (xs @ [x]))) xs @
        [length (filter (\<lambda>r. r < x) (xs @ [x]))]"
    by (simp only: map_append list.map)
  also have "\<dots> = [0..<length xs] @ [length xs]"
    unfolding a c using snoc.IH [OF s] by simp
  finally show ?case by simp
qed

lemma connected_components_labels:
  assumes "list_all (\<lambda>e. fst e < n \<and> snd e < n) adj"
  shows "length (snd (connected_components n adj)) = n"
    and "set (snd (connected_components n adj)) = {0..<fst (connected_components n adj)}"
proof -
  let ?reps = "foldl merge_labels [0..<n] adj"
  let ?roots = "filter (\<lambda>v. ?reps ! v = v) [0..<n]"
  let ?rank = "\<lambda>x. length (filter (\<lambda>r. r < x) ?roots)"
  have inv: "length ?reps = n" "\<forall>v<n. ?reps ! v \<le> v" "\<forall>v<n. ?reps ! (?reps ! v) = ?reps ! v"
    using foldl_merge_labels_inv [of "[0..<n]" n adj] assms by simp_all
  have cc: "connected_components n adj = (length ?roots, map (\<lambda>v. ?rank (?reps ! v)) [0..<n])"
    by (simp add: connected_components_def Let_def)
  show "length (snd (connected_components n adj)) = n"
    by (simp add: cc)
  have sorted: "sorted_wrt (<) ?roots"
    by (rule sorted_wrt_filter) (rule sorted_wrt_upt)
  have img: "(\<lambda>v. ?reps ! v) ` {0..<n} = set ?roots"
  proof (rule set_eqI, rule iffI)
    fix x assume "x \<in> (\<lambda>v. ?reps ! v) ` {0..<n}"
    then obtain v where v: "v < n" "x = ?reps ! v" by auto
    then have "x < n" "?reps ! x = x" using inv(2,3) by (auto intro: le_less_trans)
    then show "x \<in> set ?roots" by simp
  next
    fix x assume "x \<in> set ?roots"
    then have "x < n" "?reps ! x = x" by simp_all
    then show "x \<in> (\<lambda>v. ?reps ! v) ` {0..<n}" by force
  qed
  have "set (snd (connected_components n adj)) = ?rank ` ((\<lambda>v. ?reps ! v) ` {0..<n})"
    by (simp add: cc image_image)
  also have "\<dots> = set (map ?rank ?roots)"
    by (simp only: img set_map)
  also have "\<dots> = set [0..<length ?roots]"
    by (simp only: rank_sorted [OF sorted])
  finally show "set (snd (connected_components n adj)) = {0..<fst (connected_components n adj)}"
    by (simp add: cc)
qed

lemma sym_closure_sym: "sym ((E \<union> E\<inverse>)\<^sup>*)"
  by (rule sym_rtrancl) (auto simp add: sym_def)

lemma insert_edge_connectivity:
  fixes E :: "(nat \<times> nat) set"
  defines "C \<equiv> (E \<union> E\<inverse>)\<^sup>*"
  shows "((u, v) \<in> (insert (a, b) E \<union> (insert (a, b) E)\<inverse>)\<^sup>*) =
         ((u, v) \<in> C \<or> ((u, a) \<in> C \<and> (b, v) \<in> C) \<or> ((u, b) \<in> C \<and> (a, v) \<in> C))"
proof
  let ?E' = "insert (a, b) E \<union> (insert (a, b) E)\<inverse>"
  have symC: "\<And>x y. (x, y) \<in> C \<Longrightarrow> (y, x) \<in> C"
    using sym_closure_sym [of E] unfolding C_def by (rule symD)
  have transC: "\<And>x y z. (x, y) \<in> C \<Longrightarrow> (y, z) \<in> C \<Longrightarrow> (x, z) \<in> C"
    unfolding C_def by (rule rtrancl_trans)
  have stepC: "\<And>x y. (x, y) \<in> E \<union> E\<inverse> \<Longrightarrow> (x, y) \<in> C"
    unfolding C_def by (rule r_into_rtrancl)
  have reflC: "\<And>x. (x, x) \<in> C" unfolding C_def by simp
  {
    assume "(u, v) \<in> ?E'\<^sup>*"
    then show "(u, v) \<in> C \<or> ((u, a) \<in> C \<and> (b, v) \<in> C) \<or> ((u, b) \<in> C \<and> (a, v) \<in> C)"
    proof (induction rule: rtrancl_induct)
      case base
      show ?case using reflC by simp
    next
      case (step y z)
      from step.hyps(2) consider "(y, z) \<in> E \<union> E\<inverse>" | "y = a" "z = b" | "y = b" "z = a"
        by auto
      then show ?case
      proof cases
        case 1
        then have yz: "(y, z) \<in> C" by (rule stepC)
        from step.IH show ?thesis
          using transC [OF _ yz] by blast
      next
        case 2
        from step.IH show ?thesis
          using 2 reflC symC transC by blast
      next
        case 3
        from step.IH show ?thesis
          using 3 reflC symC transC by blast
      qed
    qed
  }
  {
    assume rhs: "(u, v) \<in> C \<or> ((u, a) \<in> C \<and> (b, v) \<in> C) \<or> ((u, b) \<in> C \<and> (a, v) \<in> C)"
    have mono: "C \<subseteq> ?E'\<^sup>*"
      unfolding C_def by (rule rtrancl_mono) auto
    have ab: "(a, b) \<in> ?E'\<^sup>*" "(b, a) \<in> ?E'\<^sup>*"
      by (rule r_into_rtrancl, simp)+
    from rhs show "(u, v) \<in> ?E'\<^sup>*"
    proof (elim disjE conjE)
      assume "(u, v) \<in> C"
      then show ?thesis using mono by blast
    next
      assume "(u, a) \<in> C" "(b, v) \<in> C"
      then have "(u, a) \<in> ?E'\<^sup>*" "(b, v) \<in> ?E'\<^sup>*" using mono by blast+
      then show ?thesis using ab(1) by (meson rtrancl_trans)
    next
      assume "(u, b) \<in> C" "(a, v) \<in> C"
      then have "(u, b) \<in> ?E'\<^sup>*" "(a, v) \<in> ?E'\<^sup>*" using mono by blast+
      then show ?thesis using ab(2) by (meson rtrancl_trans)
    qed
  }
qed

lemma merge_labels_conn:
  assumes len: "length reps = n"
      and conn: "\<forall>u<n. \<forall>v<n. (reps ! u = reps ! v) = ((u, v) \<in> (E \<union> E\<inverse>)\<^sup>*)"
      and e: "fst e < n" "snd e < n"
  shows "\<forall>u<n. \<forall>v<n. (merge_labels reps e ! u = merge_labels reps e ! v) =
                       ((u, v) \<in> (insert e E \<union> (insert e E)\<inverse>)\<^sup>*)"
proof (intro allI impI)
  fix u v assume u: "u < n" and v: "v < n"
  let ?a = "fst e" and ?b = "snd e"
  let ?ra = "reps ! fst e" and ?rb = "reps ! snd e"
  have new: "\<And>x. x < n \<Longrightarrow> merge_labels reps e ! x =
               (if reps ! x = max ?ra ?rb then min ?ra ?rb else reps ! x)"
    using len by (simp add: merge_labels_def Let_def)
  have lhs: "(merge_labels reps e ! u = merge_labels reps e ! v) =
               (reps ! u = reps ! v \<or> (reps ! u = ?ra \<and> reps ! v = ?rb) \<or> (reps ! u = ?rb \<and> reps ! v = ?ra))"
    unfolding new [OF u] new [OF v] by (auto simp add: min_def max_def split: if_splits)
  have sym: "\<And>x y. ((x, y) \<in> (E \<union> E\<inverse>)\<^sup>*) = ((y, x) \<in> (E \<union> E\<inverse>)\<^sup>*)"
    using sym_closure_sym [of E] by (auto dest: symD)
  have c1: "((u, ?a) \<in> (E \<union> E\<inverse>)\<^sup>*) = (reps ! u = ?ra)"
    using conn u e by simp
  have c2: "((u, ?b) \<in> (E \<union> E\<inverse>)\<^sup>*) = (reps ! u = ?rb)"
    using conn u e by simp
  have "((v, ?a) \<in> (E \<union> E\<inverse>)\<^sup>*) = (reps ! v = ?ra)"
    using conn v e by simp
  then have c3: "((?a, v) \<in> (E \<union> E\<inverse>)\<^sup>*) = (reps ! v = ?ra)"
    using sym [of ?a v] by simp
  have "((v, ?b) \<in> (E \<union> E\<inverse>)\<^sup>*) = (reps ! v = ?rb)"
    using conn v e by simp
  then have c4: "((?b, v) \<in> (E \<union> E\<inverse>)\<^sup>*) = (reps ! v = ?rb)"
    using sym [of ?b v] by simp
  have c0: "((u, v) \<in> (E \<union> E\<inverse>)\<^sup>*) = (reps ! u = reps ! v)"
    using conn u v by simp
  have "((u, v) \<in> (insert e E \<union> (insert e E)\<inverse>)\<^sup>*) =
        ((u, v) \<in> (insert (?a, ?b) E \<union> (insert (?a, ?b) E)\<inverse>)\<^sup>*)"
    by simp
  also have "\<dots> = (reps ! u = reps ! v \<or> (reps ! u = ?ra \<and> reps ! v = ?rb) \<or> (reps ! u = ?rb \<and> reps ! v = ?ra))"
    unfolding insert_edge_connectivity c0 c1 c2 c3 c4 by (rule refl)
  finally show "(merge_labels reps e ! u = merge_labels reps e ! v) =
                  ((u, v) \<in> (insert e E \<union> (insert e E)\<inverse>)\<^sup>*)"
    using lhs by simp
qed

lemma foldl_merge_labels_conn:
  assumes "length reps = n" "\<forall>v<n. reps ! v \<le> v" "\<forall>v<n. reps ! (reps ! v) = reps ! v"
      and "\<forall>u<n. \<forall>v<n. (reps ! u = reps ! v) = ((u, v) \<in> (E \<union> E\<inverse>)\<^sup>*)"
      and "list_all (\<lambda>e. fst e < n \<and> snd e < n) adj"
  shows "\<forall>u<n. \<forall>v<n. (foldl merge_labels reps adj ! u = foldl merge_labels reps adj ! v) =
                       ((u, v) \<in> ((E \<union> set adj) \<union> (E \<union> set adj)\<inverse>)\<^sup>*)"
  using assms
proof (induction adj arbitrary: reps E)
  case Nil
  then show ?case by simp
next
  case (Cons e adj)
  from Cons.prems(5) have e: "fst e < n" "snd e < n"
    and rest: "list_all (\<lambda>e. fst e < n \<and> snd e < n) adj"
    by simp_all
  from merge_labels_inv [OF Cons.prems(1-3) e]
  have inv: "length (merge_labels reps e) = n"
       "\<forall>v<n. merge_labels reps e ! v \<le> v"
       "\<forall>v<n. merge_labels reps e ! (merge_labels reps e ! v) = merge_labels reps e ! v"
    by blast+
  note conn = merge_labels_conn [OF Cons.prems(1) Cons.prems(4) e]
  have eq: "insert e E \<union> set adj = E \<union> set (e # adj)" by auto
  from Cons.IH [OF inv conn rest] show ?case
    unfolding eq by simp
qed

lemma connected_components_connectivity:
  assumes "list_all (\<lambda>e. fst e < n \<and> snd e < n) adj"
  shows "\<forall>u<n. \<forall>v<n. (snd (connected_components n adj) ! u = snd (connected_components n adj) ! v) =
                       ((u, v) \<in> (set adj \<union> (set adj)\<inverse>)\<^sup>*)"
proof (intro allI impI)
  fix u v assume u: "u < n" and v: "v < n"
  let ?reps = "foldl merge_labels [0..<n] adj"
  let ?roots = "filter (\<lambda>v. ?reps ! v = v) [0..<n]"
  let ?rank = "\<lambda>x. length (filter (\<lambda>r. r < x) ?roots)"
  have inv: "length ?reps = n" "\<forall>v<n. ?reps ! v \<le> v" "\<forall>v<n. ?reps ! (?reps ! v) = ?reps ! v"
    using foldl_merge_labels_inv [of "[0..<n]" n adj] assms by simp_all
  have init: "\<forall>u<n. \<forall>v<n. ([0..<n] ! u = [0..<n] ! v) = ((u, v) \<in> ({} \<union> {}\<inverse>)\<^sup>*)"
    by simp
  have conn: "(?reps ! u = ?reps ! v) = ((u, v) \<in> (set adj \<union> (set adj)\<inverse>)\<^sup>*)"
    using foldl_merge_labels_conn [of "[0..<n]" n "{}" adj, OF _ _ _ init assms] u v by simp
  have sorted: "sorted_wrt (<) ?roots"
    by (rule sorted_wrt_filter) (rule sorted_wrt_upt)
  have "distinct (map ?rank ?roots)"
    by (simp only: rank_sorted [OF sorted] distinct_upt)
  then have inj: "inj_on ?rank (set ?roots)"
    by (simp add: distinct_map)
  have ru: "?reps ! u \<in> set ?roots"
    using inv(2,3) u by (auto intro: le_less_trans)
  have rv: "?reps ! v \<in> set ?roots"
    using inv(2,3) v by (auto intro: le_less_trans)
  have "(snd (connected_components n adj) ! u = snd (connected_components n adj) ! v) =
        (?rank (?reps ! u) = ?rank (?reps ! v))"
    using u v by (simp add: connected_components_def Let_def)
  also have "\<dots> = (?reps ! u = ?reps ! v)"
    using inj_on_eq_iff [OF inj ru rv] .
  finally show "(snd (connected_components n adj) ! u = snd (connected_components n adj) ! v) =
                  ((u, v) \<in> (set adj \<union> (set adj)\<inverse>)\<^sup>*)"
    using conn by simp
qed

lemma fill_adjacency_1d_range:
  assumes "fill_adjacency_1d n adj i stay ids = Inr adj'"
      and "list_all (\<lambda>e. fst e < n \<and> snd e < n) adj"
  shows "list_all (\<lambda>e. fst e < n \<and> snd e < n) adj'"
  using assms
proof (induction n adj i stay ids rule: fill_adjacency_1d.induct)
  case (1 n adj candidate_id ids)
  then show ?case by simp
next
  case (2 n adj candidate_id next_candidate_in_focus stay_foci ids)
  show ?case
  proof (cases next_candidate_in_focus)
    case True
    note t = True
    show ?thesis
    proof (cases "ids candidate_id < n \<and> ids (candidate_id + 1) < n")
      case True
      with t "2.prems" have
        run: "fill_adjacency_1d n (adj @ [(ids candidate_id, ids (candidate_id + 1))])
                (candidate_id + 1) stay_foci ids = Inr adj'"
        by (simp add: Let_def)
      have "list_all (\<lambda>e. fst e < n \<and> snd e < n) (adj @ [(ids candidate_id, ids (candidate_id + 1))])"
        using True "2.prems"(2) by simp
      from "2.IH"(1) [OF t refl refl _ run this] True show ?thesis by simp
    next
      case False
      with t "2.prems" show ?thesis by (auto simp add: Let_def split: if_splits)
    qed
  next
    case False
    with "2.prems" have run: "fill_adjacency_1d n adj (candidate_id + 1) stay_foci ids = Inr adj'"
      by simp
    from "2.IH"(2) [OF False run "2.prems"(2)] show ?thesis .
  qed
qed

lemma adjacency_range:
  assumes "adjacency matrix = Inr adj"
  shows "list_all (\<lambda>e. fst e < length (coo_data matrix) \<and> snd e < length (coo_data matrix)) adj"
proof -
  let ?n = "length (coo_data matrix)"
  from assms obtain adj1 ids stay2 where
    a1: "fill_adjacency_1d ?n [] 0 (get_1d_foci_transition (coo_row matrix) (coo_col matrix)) (\<lambda>i. i) = Inr adj1"
    and a2: "fill_adjacency_1d ?n adj1 0 stay2 ids = Inr adj"
    by (auto simp add: adjacency_def Let_def split: sum.splits)
  have "list_all (\<lambda>e. fst e < ?n \<and> snd e < ?n) adj1"
    by (rule fill_adjacency_1d_range [OF a1]) simp
  then show ?thesis by (rule fill_adjacency_1d_range [OF a2])
qed

lemma remove_small_subset:
  "set (remove_small k nums foci) \<subseteq> insert 0 (set foci)"
proof (induction nums arbitrary: foci)
  case Nil
  then show ?case by auto
next
  case (Cons focus_num rest)
  let ?f1 = "if length (filter (\<lambda>f. f = focus_num) foci) < k
             then map (\<lambda>f. if f = focus_num then 0 else f) foci else foci"
  have "set ?f1 \<subseteq> insert 0 (set foci)" by auto
  moreover have "set (remove_small k rest ?f1) \<subseteq> insert 0 (set ?f1)" by (rule Cons.IH)
  ultimately show ?case by auto
qed

lemma length_remove_small: "length (remove_small k nums foci) = length foci"
  by (induction nums arbitrary: foci) simp_all

lemma set_masked: "set (masked xs msk) \<subseteq> set xs"
  by (auto simp add: masked_def dest: set_zip_leftD)

lemma masked_positive:
  "set (masked foci (map (\<lambda>f. f > 0) foci)) \<subseteq> set foci - {0::nat}"
proof
  fix x assume "x \<in> set (masked foci (map (\<lambda>f. f > 0) foci))"
  then obtain b where "(x, b) \<in> set (zip foci (map (\<lambda>f. f > 0) foci))" "b"
    by (auto simp add: masked_def)
  then show "x \<in> set foci - {0}"
    by (auto simp add: zip_map2 zip_same)
qed

lemma masked_all:
  assumes "length msk = length xs" "length (masked xs msk) = length xs"
  shows "list_all (\<lambda>b. b) msk"
proof -
  have "length (filter snd (zip xs msk)) = length (zip xs msk)"
    using assms by (simp add: masked_def)
  then have "\<forall>p\<in>set (zip xs msk). snd p"
    by (metis length_filter_less less_irrefl)
  then have "\<forall>b\<in>snd ` set (zip xs msk). b" by auto
  moreover have "snd ` set (zip xs msk) = set msk"
    using assms(1) by (metis map_snd_zip set_map)
  ultimately show ?thesis by (simp add: list_all_iff)
qed

lemma masked_id:
  assumes "list_all (\<lambda>b. b) msk" "length msk = length ys"
  shows "masked ys msk = ys"
proof -
  have "\<forall>p\<in>set (zip ys msk). snd p"
    using assms(1) by (auto simp add: list_all_iff dest: set_zip_rightD)
  then have "filter snd (zip ys msk) = zip ys msk"
    by (simp add: filter_id_conv)
  then show ?thesis using assms(2) by (simp add: masked_def)
qed

lemma adjacency_cong:
  assumes "coo_row m' = coo_row m" "coo_col m' = coo_col m" "length (coo_data m') = length (coo_data m)"
  shows "adjacency m' = adjacency m"
  using assms by (simp add: adjacency_def)

lemma label_unfold:
  assumes "adjacency m = Inr adj"
  shows "label_connected_pixels_sparse m k =
     Inr (fst (connected_components (length (coo_data m)) adj),
          \<lparr>coo_shape = coo_shape m,
           coo_row = masked (coo_row m)
             (map (\<lambda>f. f > 0) (remove_small k [1..<fst (connected_components (length (coo_data m)) adj) + 1]
                (map Suc (snd (connected_components (length (coo_data m)) adj))))),
           coo_col = masked (coo_col m)
             (map (\<lambda>f. f > 0) (remove_small k [1..<fst (connected_components (length (coo_data m)) adj) + 1]
                (map Suc (snd (connected_components (length (coo_data m)) adj))))),
           coo_data = masked (remove_small k [1..<fst (connected_components (length (coo_data m)) adj) + 1]
                (map Suc (snd (connected_components (length (coo_data m)) adj))))
             (map (\<lambda>f. f > 0) (remove_small k [1..<fst (connected_components (length (coo_data m)) adj) + 1]
                (map Suc (snd (connected_components (length (coo_data m)) adj)))))\<rparr>)"
  using assms by (simp only: label_connected_pixels_sparse_def Let_def sum.case)

lemma ex_lonely_run:
  "label_connected_pixels_sparse ex_lonely 2 = Inr (2, ex_lonely_foci)"
  by code_simp

lemma ex_lonely_rerun:
  "label_connected_pixels_sparse ex_lonely_foci 2 = Inr (1, ex_lonely_foci)"
  by code_simp

lemma ex_step:
  assumes "(p, q) \<in> {(a, b). a \<in> set ex_pixels \<and> b \<in> set ex_pixels \<and> spec_adjacent8 a b}"
  shows "(p \<in> {(0, 0), (1, 0), (2, 0)}) = (q \<in> {(0, 0), (1, 0), (2, 0)})"
  using assms by (auto simp add: ex_pixels_def spec_adjacent8_def)

lemma ex_closed:
  assumes "spec_same_focus ex_pixels p q"
  shows "(p \<in> {(0, 0), (1, 0), (2, 0)}) = (q \<in> {(0, 0), (1, 0), (2, 0)})"
  using assms unfolding spec_same_focus_def
proof (induction rule: rtrancl_induct)
  case base
  show ?case by simp
next
  case (step y z)
  from ex_step [OF step.hyps(2)] step.IH show ?case by simp
qed

lemma ex_edges:
  "spec_same_focus ex_pixels (0, 0) (1, 0)" "spec_same_focus ex_pixels (1, 0) (2, 0)"
  "spec_same_focus ex_pixels (1, 2) (2, 2)" "spec_same_focus ex_pixels (2, 2) (2, 3)"
  unfolding spec_same_focus_def
  by (rule r_into_rtrancl, simp add: ex_pixels_def spec_adjacent8_def)+

lemma spec_same_focus_sym: "spec_same_focus px p q \<Longrightarrow> spec_same_focus px q p"
proof -
  let ?R = "{(a, b). a \<in> set px \<and> b \<in> set px \<and> spec_adjacent8 a b}"
  have "sym ?R" by (auto simp add: sym_def spec_adjacent8_def abs_minus_commute)
  then have "sym (?R\<^sup>*)" by (rule sym_rtrancl)
  then show "spec_same_focus px p q \<Longrightarrow> spec_same_focus px q p"
    unfolding spec_same_focus_def by (rule symD)
qed

lemma spec_same_focus_trans:
  "spec_same_focus px p q \<Longrightarrow> spec_same_focus px q r \<Longrightarrow> spec_same_focus px p r"
  unfolding spec_same_focus_def by (rule rtrancl_trans)

lemma spec_same_focus_refl: "spec_same_focus px p p"
  unfolding spec_same_focus_def by simp

lemma ex_connected:
  "spec_same_focus ex_pixels (0, 0) (2, 0)" "spec_same_focus ex_pixels (1, 2) (2, 3)"
  by (rule spec_same_focus_trans [OF ex_edges(1) ex_edges(2)],
      rule spec_same_focus_trans [OF ex_edges(3) ex_edges(4)])

lemmas ex_pos = ex_edges ex_connected ex_edges [THEN spec_same_focus_sym]
  ex_connected [THEN spec_same_focus_sym] spec_same_focus_refl

lemma ex_neg:
  "\<not> spec_same_focus ex_pixels (0, 0) (1, 2)" "\<not> spec_same_focus ex_pixels (0, 0) (2, 2)"
  "\<not> spec_same_focus ex_pixels (0, 0) (2, 3)"
  "\<not> spec_same_focus ex_pixels (1, 0) (1, 2)" "\<not> spec_same_focus ex_pixels (1, 0) (2, 2)"
  "\<not> spec_same_focus ex_pixels (1, 0) (2, 3)"
  "\<not> spec_same_focus ex_pixels (2, 0) (1, 2)" "\<not> spec_same_focus ex_pixels (2, 0) (2, 2)"
  "\<not> spec_same_focus ex_pixels (2, 0) (2, 3)"
  "\<not> spec_same_focus ex_pixels (1, 2) (0, 0)" "\<not> spec_same_focus ex_pixels (1, 2) (1, 0)"
  "\<not> spec_same_focus ex_pixels (1, 2) (2, 0)"
  "\<not> spec_same_focus ex_pixels (2, 2) (0, 0)" "\<not> spec_same_focus ex_pixels (2, 2) (1, 0)"
  "\<not> spec_same_focus ex_pixels (2, 2) (2, 0)"
  "\<not> spec_same_focus ex_pixels (2, 3) (0, 0)" "\<not> spec_same_focus ex_pixels (2, 3) (1, 0)"
  "\<not> spec_same_focus ex_pixels (2, 3) (2, 0)"
  by (rule notI, drule ex_closed, simp)+

lemma ex_label_run:
  "label_connected_pixels_sparse (coo_of_dense ex_M) 2 = Inr (2, ex_foci_mat)"
  by code_simp

lemma ex_todense: "todense ex_foci_mat = [[1, 0, 0, 0], [1, 0, 2, 0], [1, 0, 2, 2], [0, 0, 0, 0]]"
  by code_simp

lemma ex_product: "List.product [0..<6] [0..<6::nat] =
  [(0,0),(0,1),(0,2),(0,3),(0,4),(0,5),(1,0),(1,1),(1,2),(1,3),(1,4),(1,5),
   (2,0),(2,1),(2,2),(2,3),(2,4),(2,5),(3,0),(3,1),(3,2),(3,3),(3,4),(3,5),
   (4,0),(4,1),(4,2),(4,3),(4,4),(4,5),(5,0),(5,1),(5,2),(5,3),(5,4),(5,5)]"
  by code_simp

lemma ex_nth:
  "ex_pixels ! 0 = (0, 0)" "ex_pixels ! 1 = (1, 0)" "ex_pixels ! 2 = (1, 2)"
  "ex_pixels ! 3 = (2, 0)" "ex_pixels ! 4 = (2, 2)" "ex_pixels ! 5 = (2, 3)"
  "coo_data ex_foci_mat ! 0 = 1" "coo_data ex_foci_mat ! 1 = 1" "coo_data ex_foci_mat ! 2 = 2"
  "coo_data ex_foci_mat ! 3 = 1" "coo_data ex_foci_mat ! 4 = 2" "coo_data ex_foci_mat ! 5 = 2"
  "ex_pixels ! Suc 0 = (1, 0)" "coo_data ex_foci_mat ! Suc 0 = 1"
  by (simp_all add: ex_pixels_def ex_foci_mat_def)

text \<open>
  Claim C6. On the 4 x 4 input [[1,0,0,0],[1,0,1,0],[1,0,1,1],[0,0,0,0]] with
  \<open>min_focus_size = 2\<close>, \<^verbatim>\<open>label_connected_pixels_sparse\<close> returns the focus count 2
  and the labelled matrix [[1,0,0,0],[1,0,2,0],[1,0,2,2],[0,0,0,0]]; two of its pixels carry
  the same label iff a chain of 8-way-adjacent candidate pixels connects them.
\<close>

theorem label_example:
  "label_connected_pixels_sparse (coo_of_dense ex_M) 2 = Inr (2, ex_foci_mat) \<and>
   todense ex_foci_mat = [[1, 0, 0, 0], [1, 0, 2, 0], [1, 0, 2, 2], [0, 0, 0, 0]] \<and>
   zip (coo_row ex_foci_mat) (coo_col ex_foci_mat) = ex_pixels \<and>
   list_all (\<lambda>(i, j). (coo_data ex_foci_mat ! i = coo_data ex_foci_mat ! j)
                       = spec_same_focus ex_pixels (ex_pixels ! i) (ex_pixels ! j))
     (List.product [0..<6] [0..<6])"
proof (intro conjI)
  show "label_connected_pixels_sparse (coo_of_dense ex_M) 2 = Inr (2, ex_foci_mat)"
    by (rule ex_label_run)
  show "todense ex_foci_mat = [[1, 0, 0, 0], [1, 0, 2, 0], [1, 0, 2, 2], [0, 0, 0, 0]]"
    by (rule ex_todense)
  show "zip (coo_row ex_foci_mat) (coo_col ex_foci_mat) = ex_pixels"
    by (simp add: ex_foci_mat_def ex_pixels_def)
  show "list_all (\<lambda>(i, j). (coo_data ex_foci_mat ! i = coo_data ex_foci_mat ! j)
                       = spec_same_focus ex_pixels (ex_pixels ! i) (ex_pixels ! j))
     (List.product [0..<6] [0..<6])"
    unfolding ex_product by (simp add: ex_nth ex_pos ex_neg)
qed

text \<open>
  Claim C5 (as amended). When the first run removes no focus (the labelled matrix stores
  as many pixels as the input), running \<^verbatim>\<open>label_connected_pixels_sparse\<close> on the
  labelled matrix returns the same focus count and the same labelled matrix.
\<close>

theorem relabel_same_count:
  assumes wf: "length (coo_row m) = length (coo_data m)" "length (coo_col m) = length (coo_data m)"
      and run: "label_connected_pixels_sparse m k = Inr (num, fm)"
      and full: "length (coo_data fm) = length (coo_data m)"
  shows "label_connected_pixels_sparse fm k = Inr (num, fm)"
proof -
  let ?n = "length (coo_data m)"
  from run obtain adj where adj: "adjacency m = Inr adj"
    by (auto simp add: label_connected_pixels_sparse_def split: sum.splits)
  define foci where
    "foci = remove_small k [1..<fst (connected_components ?n adj) + 1]
              (map Suc (snd (connected_components ?n adj)))"
  define good where "good = map (\<lambda>f. f > 0) foci"
  have unfold_m: "label_connected_pixels_sparse m k =
      Inr (fst (connected_components ?n adj),
           \<lparr>coo_shape = coo_shape m, coo_row = masked (coo_row m) good,
            coo_col = masked (coo_col m) good, coo_data = masked foci good\<rparr>)"
    unfolding good_def foci_def by (rule label_unfold [OF adj])
  from run have "Inr (num, fm) = label_connected_pixels_sparse m k"
    by (rule sym)
  also note unfold_m
  finally have num: "num = fst (connected_components ?n adj)"
    and fm: "fm = \<lparr>coo_shape = coo_shape m, coo_row = masked (coo_row m) good,
                    coo_col = masked (coo_col m) good, coo_data = masked foci good\<rparr>"
    by (simp_all only: sum.inject prod.inject)
  have "length foci = length (map Suc (snd (connected_components ?n adj)))"
    unfolding foci_def by (rule length_remove_small)
  then have len_foci: "length foci = ?n"
    using connected_components_labels(1) [OF adjacency_range [OF adj]]
    by (simp only: length_map)
  have len_good: "length good = ?n"
    by (simp add: good_def len_foci)
  have "length (masked foci good) = ?n" using full fm by simp
  then have all: "list_all (\<lambda>b. b) good"
    using masked_all [of good foci] len_foci len_good by simp
  have m1: "masked (coo_row m) good = coo_row m"
    by (rule masked_id [OF all]) (simp add: len_good wf)
  have m2: "masked (coo_col m) good = coo_col m"
    by (rule masked_id [OF all]) (simp add: len_good wf)
  have m3: "masked foci good = foci"
    by (rule masked_id [OF all]) (simp add: len_good len_foci)
  have fm': "fm = \<lparr>coo_shape = coo_shape m, coo_row = coo_row m, coo_col = coo_col m, coo_data = foci\<rparr>"
    using fm by (simp only: m1 m2 m3)
  have n': "length (coo_data fm) = ?n" by (simp add: fm' len_foci)
  have adj': "adjacency fm = Inr adj"
    using adjacency_cong [of fm m] adj by (simp add: fm' len_foci)
  have "label_connected_pixels_sparse fm k =
      Inr (fst (connected_components ?n adj),
           \<lparr>coo_shape = coo_shape fm, coo_row = masked (coo_row fm) good,
            coo_col = masked (coo_col fm) good, coo_data = masked foci good\<rparr>)"
    unfolding good_def foci_def using label_unfold [OF adj', of k] by (simp only: n')
  also have "\<dots> = Inr (num, fm)"
    by (simp add: num fm' m1 m2 m3)
  finally show ?thesis .
qed

theorem relabel_same_count_witness:
  "label_connected_pixels_sparse ex_foci_mat 2 = Inr (2, ex_foci_mat)"
proof -
  have wf: "length (coo_row (coo_of_dense ex_M)) = length (coo_data (coo_of_dense ex_M))"
           "length (coo_col (coo_of_dense ex_M)) = length (coo_data (coo_of_dense ex_M))"
    by code_simp+
  have full: "length (coo_data ex_foci_mat) = length (coo_data (coo_of_dense ex_M))"
    by code_simp
  show ?thesis
    by (rule relabel_same_count [OF wf ex_label_run full])
qed

text \<open>
  The claim as stated fails as soon as a focus is removed: with two adjacent pixels and
  one isolated pixel the first run returns the count 2 (the isolated pixel is counted,
  then removed), and the run on the matrix it produced returns 1.
\<close>

theorem relabel_count_counterexample:
  "label_connected_pixels_sparse ex_lonely 2 = Inr (2, ex_lonely_foci) \<and>
   label_connected_pixels_sparse ex_lonely_foci 2 = Inr (1, ex_lonely_foci)"
  using ex_lonely_run ex_lonely_rerun by simp

lemma pick_loop_length:
  "pick_loop mat_conv labelled_mat r ids foci_coords = Inr res \<Longrightarrow> length res = length foci_coords"
proof (induction ids arbitrary: r foci_coords)
  case Nil
  then show ?case by simp
next
  case (Cons focus_id rest)
  from Cons.prems obtain fc where
    step: "pick_focus mat_conv labelled_mat foci_coords r focus_id = Inr fc"
    and run: "pick_loop mat_conv labelled_mat (Suc r) rest fc = Inr res"
    by (auto split: sum.splits)
  from step have "length fc = length foci_coords"
    by (auto simp add: pick_focus_def Let_def split: sum.splits if_splits)
  with Cons.IH [OF run] show ?case by simp
qed

text \<open>The count and the labels before removal, relative to the adjacency that the code
  builds: the labels are exactly 1, ..., \<open>num_foci\<close>, two pixels carry the same label iff
  they are connected in that adjacency, and the count does not depend on
  \<open>min_focus_size\<close>.\<close>

lemma label_count_general:
  assumes run: "label_connected_pixels_sparse matrix min_focus_size = Inr (num_foci, foci_mat)"
  shows "\<exists>adj foci. adjacency matrix = Inr adj \<and>
           foci_before_removal matrix = Inr foci \<and>
           (\<forall>u<length foci. \<forall>v<length foci.
              (foci ! u = foci ! v) = ((u, v) \<in> (set adj \<union> (set adj)\<inverse>)\<^sup>*)) \<and>
           length foci = length (coo_data matrix) \<and>
           set foci = {1..num_foci} \<and>
           num_foci = card (set foci) \<and>
           set (coo_data foci_mat) \<subseteq> set foci \<and>
           card (set (coo_data foci_mat)) \<le> num_foci \<and>
           (\<forall>k. \<exists>fm. label_connected_pixels_sparse matrix k = Inr (num_foci, fm))"
proof -
  let ?n = "length (coo_data matrix)"
  from run obtain adj where adj: "adjacency matrix = Inr adj"
    by (auto simp add: label_connected_pixels_sparse_def split: sum.splits)
  define before where "before = map Suc (snd (connected_components ?n adj))"
  define nums where "nums = [1..<fst (connected_components ?n adj) + 1]"
  define foci where "foci = remove_small min_focus_size nums before"
  have unfold_m: "label_connected_pixels_sparse matrix min_focus_size =
      Inr (fst (connected_components ?n adj),
           \<lparr>coo_shape = coo_shape matrix,
            coo_row = masked (coo_row matrix) (map (\<lambda>f. f > 0) foci),
            coo_col = masked (coo_col matrix) (map (\<lambda>f. f > 0) foci),
            coo_data = masked foci (map (\<lambda>f. f > 0) foci)\<rparr>)"
    unfolding foci_def nums_def before_def by (rule label_unfold [OF adj])
  from run have "Inr (num_foci, foci_mat) = label_connected_pixels_sparse matrix min_focus_size"
    by (rule sym)
  also note unfold_m
  finally have num: "num_foci = fst (connected_components ?n adj)"
    and fm: "foci_mat = \<lparr>coo_shape = coo_shape matrix,
           coo_row = masked (coo_row matrix) (map (\<lambda>f. f > 0) foci),
           coo_col = masked (coo_col matrix) (map (\<lambda>f. f > 0) foci),
           coo_data = masked foci (map (\<lambda>f. f > 0) foci)\<rparr>"
    by (simp_all only: sum.inject prod.inject)
  have data: "coo_data foci_mat = masked foci (map (\<lambda>f. f > 0) foci)"
    by (simp add: fm)
  note lab = connected_components_labels [OF adjacency_range [OF adj]]
  have A: "foci_before_removal matrix = Inr before"
    by (simp add: foci_before_removal_def adj before_def)
  have B: "length before = ?n" using lab(1) by (simp add: before_def)
  have C: "set before = {1..num_foci}"
  proof -
    have "set before = Suc ` {0..<num_foci}" using lab(2) num by (simp add: before_def)
    also have "\<dots> = {1..num_foci}"
      by (metis One_nat_def atLeastLessThanSuc_atLeastAtMost image_Suc_atLeastLessThan)
    finally show ?thesis .
  qed
  have D: "num_foci = card (set before)" unfolding C by simp
  have E: "set (coo_data foci_mat) \<subseteq> set before"
  proof -
    have "set (coo_data foci_mat) \<subseteq> set foci - {0}"
      unfolding data by (rule masked_positive)
    also have "\<dots> \<subseteq> set before"
      using remove_small_subset [of min_focus_size nums before] by (auto simp add: foci_def)
    finally show ?thesis .
  qed
  have F: "card (set (coo_data foci_mat)) \<le> num_foci"
    using card_mono [OF _ E] D by simp
  have G: "\<forall>k. \<exists>fm. label_connected_pixels_sparse matrix k = Inr (num_foci, fm)"
    using label_unfold [OF adj] num by blast
  have H: "\<forall>u<length before. \<forall>v<length before.
              (before ! u = before ! v) = ((u, v) \<in> (set adj \<union> (set adj)\<inverse>)\<^sup>*)"
  proof (intro allI impI)
    fix u v assume "u < length before" "v < length before"
    then have u: "u < ?n" and v: "v < ?n" using B by simp_all
    have "(before ! u = before ! v) =
          (snd (connected_components ?n adj) ! u = snd (connected_components ?n adj) ! v)"
      using u v lab(1) by (simp add: before_def)
    also have "\<dots> = ((u, v) \<in> (set adj \<union> (set adj)\<inverse>)\<^sup>*)"
      using connected_components_connectivity [OF adjacency_range [OF adj]] u v by simp
    finally show "(before ! u = before ! v) = ((u, v) \<in> (set adj \<union> (set adj)\<inverse>)\<^sup>*)" .
  qed
  from adj A H B C D E F G show ?thesis by blast
qed

lemma picker_length:
  assumes "picker mad mat_conv prec = Inr (Some foci_coords)"
  shows "\<exists>num_foci labelled_mat.
           label_connected_pixels_sparse (candidates mad mat_conv prec) 2 =
             Inr (num_foci, labelled_mat) \<and>
           length foci_coords = num_foci"
proof -
  from assms obtain num_foci labelled_mat where
    lab: "label_connected_pixels_sparse (candidates mad mat_conv prec) 2 = Inr (num_foci, labelled_mat)"
    and loop: "pick_loop mat_conv labelled_mat 0 (np_unique (coo_data labelled_mat))
                 (replicate num_foci (0, 0)) = Inr foci_coords"
    by (auto simp add: picker_def Let_def split: if_splits sum.splits)
  from pick_loop_length [OF loop] lab show ?thesis by simp
qed

lemma ex_candidates:
  "candidates mad ex_conv_coo 0 =
     \<lparr>coo_shape = (8, 8), coo_row = [3, 3, 7], coo_col = [3, 4, 7], coo_data = [1, 1, 1]\<rparr>"
  by (simp add: candidates_def ex_conv_coo_def np_median_def masked_def)

lemma ex_candidates_label:
  "label_connected_pixels_sparse
     \<lparr>coo_shape = (8, 8), coo_row = [3, 3, 7], coo_col = [3, 4, 7], coo_data = [1, 1, 1::real]\<rparr> 2 =
   Inr (2, \<lparr>coo_shape = (8, 8), coo_row = [3, 3], coo_col = [3, 4], coo_data = [1, 1]\<rparr>)"
  by code_simp

lemma ex_picker: "picker mad ex_conv_coo 0 = Inr (Some [(3, 3), (0, 0)])"
  by (simp add: picker_def ex_candidates ex_candidates_label np_unique_def)
     (simp add: pick_focus_def csr_lookup_def np_argmax_def ex_conv_coo_def numeral_2_eq_2)

lemma ex_X_run: "label_connected_pixels_sparse (coo_of_dense ex_X) 2 = Inr (3, ex_X_foci)"
  by code_simp

lemma ex_X_before: "foci_before_removal (coo_of_dense ex_X) = Inr [1, 2, 2, 2, 3]"
  by code_simp

lemma ex_X_zip: "zip (coo_row (coo_of_dense ex_X)) (coo_col (coo_of_dense ex_X)) = ex_X_pixels"
  by code_simp

lemma ex_Y_run: "label_connected_pixels_sparse (coo_of_dense ex_Y) 2 = Inr (3, ex_Y_foci)"
  by code_simp

lemma ex_Y_before: "foci_before_removal (coo_of_dense ex_Y) = Inr [1, 2, 2, 2, 3, 2]"
  by code_simp

lemma ex_Y_zip: "zip (coo_row (coo_of_dense ex_Y)) (coo_col (coo_of_dense ex_Y)) = ex_Y_pixels"
  by code_simp

lemma spec_same_focus_adjacent:
  "p \<in> set px \<Longrightarrow> q \<in> set px \<Longrightarrow> spec_adjacent8 p q \<Longrightarrow> spec_same_focus px p q"
  unfolding spec_same_focus_def by (rule r_into_rtrancl) simp

lemma spec_focus_count_one:
  assumes ne: "c \<in> set px"
      and all: "\<And>p. p \<in> set px \<Longrightarrow> spec_same_focus px p c"
  shows "spec_focus_count px = 1"
proof -
  have "\<And>p. p \<in> set px \<Longrightarrow> {q. q \<in> set px \<and> spec_same_focus px p q} = set px"
  proof -
    fix p assume p: "p \<in> set px"
    have "\<And>q. q \<in> set px \<Longrightarrow> spec_same_focus px p q"
      using spec_same_focus_trans [OF all [OF p] spec_same_focus_sym [OF all]] by blast
    then show "{q. q \<in> set px \<and> spec_same_focus px p q} = set px" by auto
  qed
  then have "(\<lambda>p. {q. q \<in> set px \<and> spec_same_focus px p q}) ` set px = {set px}"
    using ne by auto
  then show ?thesis by (simp add: spec_focus_count_def)
qed

lemma ex_X_one_focus: "spec_focus_count ex_X_pixels = 1"
proof (rule spec_focus_count_one [where c = "(1, 1)"])
  show "(1, 1) \<in> set ex_X_pixels" by (simp add: ex_X_pixels_def)
next
  fix p assume "p \<in> set ex_X_pixels"
  then consider "p = (1, 1)" | "p \<in> set ex_X_pixels" "spec_adjacent8 p (1, 1)"
    by (auto simp add: ex_X_pixels_def spec_adjacent8_def)
  then show "spec_same_focus ex_X_pixels p (1, 1)"
  proof cases
    case 1
    then show ?thesis by (simp add: spec_same_focus_refl)
  next
    case 2
    then show ?thesis
      by (intro spec_same_focus_adjacent) (simp_all add: ex_X_pixels_def)
  qed
qed

lemma ex_Y_one_focus: "spec_focus_count ex_Y_pixels = 1"
proof (rule spec_focus_count_one [where c = "(1, 1)"])
  show "(1, 1) \<in> set ex_Y_pixels" by (simp add: ex_Y_pixels_def)
next
  fix p assume "p \<in> set ex_Y_pixels"
  then consider "p = (1, 1)" | "p \<in> set ex_Y_pixels" "spec_adjacent8 p (1, 1)" | "p = (3, 0)"
    by (auto simp add: ex_Y_pixels_def spec_adjacent8_def)
  then show "spec_same_focus ex_Y_pixels p (1, 1)"
  proof cases
    case 1
    then show ?thesis by (simp add: spec_same_focus_refl)
  next
    case 2
    then show ?thesis
      by (intro spec_same_focus_adjacent) (simp_all add: ex_Y_pixels_def)
  next
    case 3
    have a: "spec_same_focus ex_Y_pixels (3, 0) (2, 0)"
      by (rule spec_same_focus_adjacent) (simp_all add: ex_Y_pixels_def spec_adjacent8_def)
    have b: "spec_same_focus ex_Y_pixels (2, 0) (1, 1)"
      by (rule spec_same_focus_adjacent) (simp_all add: ex_Y_pixels_def spec_adjacent8_def)
    from spec_same_focus_trans [OF a b] 3 show ?thesis by simp
  qed
qed

lemma ex_X_candidates:
  "candidates mad ex_X_conv 0 =
     \<lparr>coo_shape = (3, 3), coo_row = [0, 0, 1, 2, 2], coo_col = [0, 2, 1, 0, 2],
      coo_data = [1, 1, 1, 1, 1]\<rparr>"
  by (simp add: candidates_def ex_X_conv_def np_median_def masked_def)

lemma ex_X_candidates_label:
  "label_connected_pixels_sparse
     \<lparr>coo_shape = (3, 3), coo_row = [0, 0, 1, 2, 2], coo_col = [0, 2, 1, 0, 2],
      coo_data = [1, 1, 1, 1, 1::real]\<rparr> 2 = Inr (3, ex_X_foci)"
  by code_simp

lemma ex_X_picker: "picker mad ex_X_conv 0 = Inr (Some [(0, 2), (0, 0), (0, 0)])"
  by (simp add: picker_def ex_X_candidates ex_X_candidates_label np_unique_def ex_X_foci_def)
     (simp add: pick_focus_def csr_lookup_def np_argmax_def ex_X_conv_def numeral_3_eq_3)

text \<open>
  Claim C10. The focus count is meant to be the number of connected components among the
  candidate pixels, counted before the small foci are removed. The code links two pixels
  only when they follow each other in storage order or in column-major order, so
  diagonal neighbours with another pixel between them in both orders are never linked,
  against the docstring (8-way adjacency). On the X-shaped input
  [[1,0,1],[0,1,0],[1,0,1]] the five pixels form one focus, and the code returns the
  count 3 with the labels 1, 2, 2, 2, 3 before removal; with one more pixel at (3, 0),
  linked to (2, 0) by the pass over the transpose only, the count is still 3 for one
  focus. The count is the one before removal (a single label is left in both returned
  matrices), and the picker returns one row per counted focus: three rows for the X.
\<close>

theorem label_count_misses_diagonal_links:
  "label_connected_pixels_sparse (coo_of_dense ex_X) 2 = Inr (3, ex_X_foci) \<and>
   foci_before_removal (coo_of_dense ex_X) = Inr [1, 2, 2, 2, 3] \<and>
   zip (coo_row (coo_of_dense ex_X)) (coo_col (coo_of_dense ex_X)) = ex_X_pixels \<and>
   spec_focus_count ex_X_pixels = 1 \<and>
   label_connected_pixels_sparse (coo_of_dense ex_Y) 2 = Inr (3, ex_Y_foci) \<and>
   foci_before_removal (coo_of_dense ex_Y) = Inr [1, 2, 2, 2, 3, 2] \<and>
   zip (coo_row (coo_of_dense ex_Y)) (coo_col (coo_of_dense ex_Y)) = ex_Y_pixels \<and>
   spec_focus_count ex_Y_pixels = 1 \<and>
   picker mad ex_X_conv 0 = Inr (Some [(0, 2), (0, 0), (0, 0)])"
  using ex_X_run ex_X_before ex_X_zip ex_X_one_focus ex_Y_run ex_Y_before ex_Y_zip
    ex_Y_one_focus ex_X_picker
  by simp

section \<open>Properties of picker\<close>

text \<open>
  Claim C3. The picker is meant to return one coordinate pair per surviving focus and no
  other pair. On a correlation map with one focus of two pixels and one isolated pixel
  above the threshold, the code returns two rows: the maximum of the focus, then the row
  (0, 0), which is no pixel of any focus (the result array has one row per focus counted
  before the removal of small foci).
\<close>

theorem picker_pads_removed_foci:
  "picker mad ex_conv_coo 0 = Inr (Some [(3, 3), (0, 0)])"
  by (rule ex_picker)

section \<open>Properties of explore_patterns\<close>

text \<open>
  Claim C4. A pass without candidates is meant to contribute nothing and to let the loop
  continue. \<^verbatim>\<open>pattern_detector\<close> returns (None, None) when the kernel is as large as
  the contact map (line 164) and when the picker finds no candidate (line 181); in both
  cases \<^verbatim>\<open>explore_patterns\<close> raises TypeError when it iterates over the None
  (line 272).
\<close>

theorem explore_patterns_none_raises:
  "explore_patterns matching ex_contact_map ex_kernel_config 4 = Inl TypeError \<and>
   explore_patterns ex_matching_none ex_contact_map ex_kernel_config_small 4 = Inl TypeError"
  by (simp add: explore_patterns_def ex_contact_map_def ex_kernel_config_def
        ex_kernel_config_small_def ex_matching_none_def py_range_def pattern_detector_def upto_rec1)

section \<open>Properties of xcorr2 and corrcoef2d\<close>

lemma upto_small:
  "[0..0] = [0::int]" "[0..1] = [0, 1::int]" "[0..-1] = ([]::int list)" "[1..0] = ([]::int list)"
  by (simp_all add: upto_rec1)

lemmas xcorr2_defs = xcorr2_def xcorr2_constant_def new_sparse_def sp_diags_def matmul_def
  mat_add_def mat_scale_def col_slice_def slice_bound_def allclose_first_def drop_small_def
  add_margins_def py_range_def upto_small Let_def

lemma xcorr2_sanity_checks:
  assumes "\<not> issparse signal \<or> issparse kern \<or> nrows (arr kern) > nrows (arr signal)"
  shows "xcorr2 signal kern threshold = Inl ValueError"
  using assms by (auto simp add: xcorr2_def Let_def)

text \<open>
  Claim C1. A kernel wider than the signal is meant to be refused with an error before any
  computation, as a dense signal, a sparse kernel and a kernel higher than the signal are
  (\<open>xcorr2_sanity_checks\<close>). The test of line 550 compares \<open>sn\<close> with itself, so the width is never
  checked: for a sparse 3 x 3 signal and a dense 1 x 4 kernel \<^verbatim>\<open>xcorr2\<close> runs to the
  end and returns a 3 x 3 matrix of zeros.
\<close>

theorem xcorr2_accepts_wide_kernel:
  "map_sum id dense_of (xcorr2 (Sparse ex_signal33) (Dense ex_kernel14) (1 / 10 ^ 4)) =
     Inr [[0, 0, 0], [0, 0, 0], [0, 0, 0]]"
  by code_simp

text \<open>On a square signal, with a kernel that fits and is exactly constant, the two
  branches of \<^verbatim>\<open>xcorr2\<close> return matrices of the same shape with the same entries: the
  sum of the signal over the window, times the constant.\<close>

lemma sum_list_upto: "sum_list (map f [a..b]) = sum f {a..b}"
  by (simp add: sum_list_distinct_conv_sum_set)

lemma sum_list_py_range: "sum_list (map f (py_range a b)) = sum f {a..b - 1}"
  by (simp add: py_range_def sum_list_upto)

lemma sum_list_delta:
  "distinct xs \<Longrightarrow>
   sum_list (map (\<lambda>y. if x = y then f y else (0::real)) xs) = (if x \<in> set xs then f x else 0)"
  by (induction xs) auto

lemma diags_entry:
  "sum_list (map (\<lambda>(d, off). if x = off then d else 0) (zip (map f (py_range 0 k)) (py_range 0 k))) =
     (if 0 \<le> x \<and> x < k then f x else (0::real))"
proof -
  have "zip (map f (py_range 0 k)) (py_range 0 k) = map (\<lambda>y. (f y, y)) (py_range 0 k)"
    by (simp add: zip_map1 zip_same_conv_map)
  then have "sum_list (map (\<lambda>(d, off). if x = off then d else 0) (zip (map f (py_range 0 k)) (py_range 0 k))) =
             sum_list (map (\<lambda>y. if x = y then f y else 0) (py_range 0 k))"
    by (simp add: comp_def)
  also have "\<dots> = (if x \<in> set (py_range 0 k) then f x else 0)"
    by (rule sum_list_delta) (simp add: py_range_def)
  also have "\<dots> = (if 0 \<le> x \<and> x < k then f x else 0)"
    by (auto simp add: py_range_def)
  finally show ?thesis .
qed

lemma diags_entry_neg:
  "sum_list (map (\<lambda>(d, off). if x = off then d else 0)
      (zip (map f (py_range 0 k)) (map uminus (py_range 0 k)))) =
     (if 0 \<le> - x \<and> - x < k then f (- x) else (0::real))"
proof -
  have "zip (map f (py_range 0 k)) (map uminus (py_range 0 k)) = map (\<lambda>y. (f y, - y)) (py_range 0 k)"
    by (simp add: zip_map1 zip_map2 zip_same_conv_map comp_def)
  then have "sum_list (map (\<lambda>(d, off). if x = off then d else 0)
               (zip (map f (py_range 0 k)) (map uminus (py_range 0 k)))) =
             sum_list (map (\<lambda>y. if - x = y then f y else 0) (py_range 0 k))"
    by (simp add: comp_def) (rule arg_cong [where f = sum_list], rule map_cong, auto)
  also have "\<dots> = (if - x \<in> set (py_range 0 k) then f (- x) else 0)"
    by (rule sum_list_delta) (simp add: py_range_def)
  also have "\<dots> = (if 0 \<le> - x \<and> - x < k then f (- x) else 0)"
    by (auto simp add: py_range_def)
  finally show ?thesis .
qed

lemma replicate_as_map: "0 \<le> k \<Longrightarrow> replicate (nat k) c = map (\<lambda>y. c) (py_range 0 k)"
  by (simp add: py_range_def map_replicate_const)

lemma window_sum:
  fixes g :: "int \<Rightarrow> real"
  assumes "0 \<le> i" "0 \<le> w" "i + w \<le> s"
  shows "(\<Sum>k\<in>{0..s - 1}. (if 0 \<le> k - i \<and> k - i < w then 1 else 0) * g k) = (\<Sum>a\<in>{0..w - 1}. g (i + a))"
proof -
  have "(\<Sum>k\<in>{0..s - 1}. (if 0 \<le> k - i \<and> k - i < w then 1 else 0) * g k) =
        (\<Sum>k\<in>{0..s - 1}. if k \<in> {i..i + w - 1} then g k else 0)"
    by (rule sum.cong) auto
  also have "\<dots> = (\<Sum>k\<in>{0..s - 1} \<inter> {i..i + w - 1}. g k)"
    by (rule sum.inter_restrict [symmetric]) simp
  also have "{0..s - 1} \<inter> {i..i + w - 1} = {i..i + w - 1}"
    using assms by auto
  also have "(\<Sum>k\<in>{i..i + w - 1}. g k) = (\<Sum>a\<in>{0..w - 1}. g (i + a))"
    by (rule sum.reindex_bij_witness [where i = "\<lambda>a. i + a" and j = "\<lambda>k. k - i"]) auto
  finally show ?thesis .
qed


lemma sp_diags_ok:
  assumes "list_all (\<lambda>off. 0 \<le> min (min (m + off) (n - off)) (min m n)) offsets"
  shows "sp_diags diagonals offsets m n =
     Inr \<lparr>nrows = m, ncols = n,
          entry = (\<lambda>i j. sum_list (map (\<lambda>(d, off). if j - i = off then d else 0)
                                       (zip diagonals offsets)))\<rparr>"
proof -
  have "\<not> list_ex (\<lambda>off. min (min (m + off) (n - off)) (min m n) < 0) offsets"
    using assms by (auto simp add: list_all_iff list_ex_iff)
  then show ?thesis by (simp add: sp_diags_def)
qed

lemma left_operator:
  assumes "0 < km" "km \<le> s"
  shows "sp_diags (map f (py_range 0 km)) (py_range 0 km) (s - km + 1) s =
     Inr \<lparr>nrows = s - km + 1, ncols = s,
          entry = (\<lambda>i k. if 0 \<le> k - i \<and> k - i < km then f (k - i) else 0)\<rparr>"
proof -
  have ok: "list_all (\<lambda>off. 0 \<le> min (min (s - km + 1 + off) (s - off)) (min (s - km + 1) s)) (py_range 0 km)"
    using assms by (auto simp add: list_all_iff py_range_def)
  show ?thesis
    unfolding sp_diags_ok [OF ok] by (simp add: diags_entry)
qed

lemma right_operator:
  assumes "0 < kn" "kn \<le> s"
  shows "sp_diags (map f (py_range 0 kn)) (map uminus (py_range 0 kn)) s (s - kn + 1) =
     Inr \<lparr>nrows = s, ncols = s - kn + 1,
          entry = (\<lambda>k j. if 0 \<le> k - j \<and> k - j < kn then f (k - j) else 0)\<rparr>"
proof -
  have ok: "list_all (\<lambda>off. 0 \<le> min (min (s + off) (s - kn + 1 - off)) (min s (s - kn + 1)))
              (map uminus (py_range 0 kn))"
    using assms by (auto simp add: list_all_iff py_range_def)
  have neg: "\<And>i j::int. - (j - i) = i - j" by simp
  show ?thesis
    unfolding sp_diags_ok [OF ok] by (simp add: diags_entry_neg neg cong: if_cong)
qed

lemma xcorr2_constant_square:
  assumes shp: "nrows S = s" "ncols S = s" "nrows K = km" "ncols K = kn"
      and k: "0 < km" "km \<le> s" "0 < kn" "kn \<le> s"
  shows "\<exists>A. xcorr2_constant S K c = Inr A \<and> nrows A = s - km + 1 \<and> ncols A = s - kn + 1 \<and>
           (\<forall>i j. 0 \<le> i \<and> i < s - km + 1 \<and> 0 \<le> j \<and> j < s - kn + 1 \<longrightarrow>
                  entry A i j = (\<Sum>b\<in>{0..kn - 1}. \<Sum>a\<in>{0..km - 1}. entry S (i + a) (j + b)) * c)"
proof -
  let ?L = "\<lparr>nrows = s - km + 1, ncols = s,
             entry = (\<lambda>i k. if 0 \<le> k - i \<and> k - i < km then 1 else (0::real))\<rparr>"
  let ?R = "\<lparr>nrows = s, ncols = s - kn + 1,
             entry = (\<lambda>k j. if 0 \<le> k - j \<and> k - j < kn then 1 else (0::real))\<rparr>"
  have L: "sp_diags (replicate (nat km) 1) (py_range 0 km) (s - km + 1) s = Inr ?L"
    using left_operator [OF k(1,2), of "\<lambda>y. 1"] k(1) by (simp add: replicate_as_map)
  have R: "sp_diags (replicate (nat kn) 1) (map uminus (py_range 0 kn)) s (s - kn + 1) = Inr ?R"
    using right_operator [OF k(3,4), of "\<lambda>y. 1"] k(3) by (simp add: replicate_as_map)
  let ?LS = "\<lparr>nrows = s - km + 1, ncols = s,
              entry = (\<lambda>i j. sum_list (map (\<lambda>k. entry ?L i k * entry S k j) (py_range 0 s)))\<rparr>"
  have LS: "matmul ?L S = Inr ?LS"
    by (simp add: matmul_def shp)
  let ?out = "\<lparr>nrows = s - km + 1, ncols = s - kn + 1,
               entry = (\<lambda>i j. sum_list (map (\<lambda>k. entry ?LS i k * entry ?R k j) (py_range 0 s)))\<rparr>"
  have out: "matmul ?LS ?R = Inr ?out"
    by (simp add: matmul_def)
  have run: "xcorr2_constant S K c = Inr (mat_scale ?out c)"
    unfolding xcorr2_constant_def Let_def shp L R by (simp only: sum.case LS out)
  have ent: "\<forall>i j. 0 \<le> i \<and> i < s - km + 1 \<and> 0 \<le> j \<and> j < s - kn + 1 \<longrightarrow>
                  entry (mat_scale ?out c) i j =
                  (\<Sum>b\<in>{0..kn - 1}. \<Sum>a\<in>{0..km - 1}. entry S (i + a) (j + b)) * c"
  proof (intro allI impI)
    fix i j assume ij: "0 \<le> i \<and> i < s - km + 1 \<and> 0 \<le> j \<and> j < s - kn + 1"
    have ls: "\<And>k. entry ?LS i k = (\<Sum>a\<in>{0..km - 1}. entry S (i + a) k)"
    proof -
      fix k
      have "entry ?LS i k = (\<Sum>k'\<in>{0..s - 1}. (if 0 \<le> k' - i \<and> k' - i < km then 1 else 0) * entry S k' k)"
        by (simp add: sum_list_py_range)
      also have "\<dots> = (\<Sum>a\<in>{0..km - 1}. entry S (i + a) k)"
        by (rule window_sum) (use ij k in auto)
      finally show "entry ?LS i k = (\<Sum>a\<in>{0..km - 1}. entry S (i + a) k)" .
    qed
    have "entry ?out i j = (\<Sum>k\<in>{0..s - 1}. entry ?LS i k * (if 0 \<le> k - j \<and> k - j < kn then 1 else 0))"
      by (simp only: mat.simps sum_list_py_range)
    also have "\<dots> = (\<Sum>k\<in>{0..s - 1}. (if 0 \<le> k - j \<and> k - j < kn then 1 else 0) * entry ?LS i k)"
      by (rule sum.cong) (simp_all only: mult.commute)
    also have "\<dots> = (\<Sum>b\<in>{0..kn - 1}. entry ?LS i (j + b))"
      by (rule window_sum) (use ij k in auto)
    also have "\<dots> = (\<Sum>b\<in>{0..kn - 1}. \<Sum>a\<in>{0..km - 1}. entry S (i + a) (j + b))"
      by (simp only: ls)
    finally show "entry (mat_scale ?out c) i j =
                  (\<Sum>b\<in>{0..kn - 1}. \<Sum>a\<in>{0..km - 1}. entry S (i + a) (j + b)) * c"
      by (simp add: mat_scale_def)
  qed
  have "nrows (mat_scale ?out c) = s - km + 1" "ncols (mat_scale ?out c) = s - kn + 1"
    by (simp_all add: mat_scale_def)
  with run ent show ?thesis by blast
qed


lemma xcorr2_general_square:
  assumes shp: "nrows S = s" "ncols S = s" "nrows K = km" "ncols K = kn"
      and k: "0 < km" "km \<le> s" "0 < kn" "kn \<le> s"
      and const: "\<And>i j. 0 \<le> i \<Longrightarrow> i < km \<Longrightarrow> 0 \<le> j \<Longrightarrow> j < kn \<Longrightarrow> entry K i j = c"
      and kjs: "list_all (\<lambda>kj. 0 \<le> kj \<and> kj < kn) kjs"
      and out: "nrows out = s - km + 1" "ncols out = s - kn + 1"
  shows "\<exists>B. xcorr2_general S K kjs out = Inr B \<and> nrows B = s - km + 1 \<and> ncols B = s - kn + 1 \<and>
           (\<forall>i j. 0 \<le> i \<and> i < s - km + 1 \<and> 0 \<le> j \<and> j < s - kn + 1 \<longrightarrow>
                  entry B i j =
                  entry out i j + (\<Sum>kj\<leftarrow>kjs. c * (\<Sum>a\<in>{0..km - 1}. entry S (i + a) (j + kj))))"
  using kjs out
proof (induction kjs arbitrary: out)
  case Nil
  then show ?case by simp
next
  case (Cons kj kjs)
  from Cons.prems(1) have kj: "0 \<le> kj" "kj < kn"
    and rest: "list_all (\<lambda>kj. 0 \<le> kj \<and> kj < kn) kjs"
    by simp_all
  let ?D = "\<lparr>nrows = s - km + 1, ncols = s,
             entry = (\<lambda>i k. if 0 \<le> k - i \<and> k - i < km then entry K (k - i) kj else 0)\<rparr>"
  have D: "sp_diags (map (\<lambda>i. entry K i kj) (py_range 0 km)) (py_range 0 km) (s - km + 1) s = Inr ?D"
    by (rule left_operator [OF k(1,2)])
  let ?sl = "\<lparr>nrows = s, ncols = s - kn + 1, entry = (\<lambda>i j. entry S i (j + kj))\<rparr>"
  have sl: "col_slice S kj (s - kn + 1 + kj) = ?sl"
    using kj k by (simp add: col_slice_def slice_bound_def shp Let_def)
  let ?P = "\<lparr>nrows = s - km + 1, ncols = s - kn + 1,
             entry = (\<lambda>i j. sum_list (map (\<lambda>k. entry ?D i k * entry ?sl k j) (py_range 0 s)))\<rparr>"
  have P: "matmul ?D ?sl = Inr ?P"
    by (simp add: matmul_def)
  let ?out' = "\<lparr>nrows = nrows out, ncols = ncols out,
                entry = (\<lambda>i j. entry out i j + entry ?P i j)\<rparr>"
  have add: "mat_add out ?P = Inr ?out'"
    using Cons.prems(2,3) by (simp add: mat_add_def)
  have step: "xcorr2_general S K (kj # kjs) out = xcorr2_general S K kjs ?out'"
    unfolding xcorr2_general.simps Let_def shp D sl
    by (simp only: sum.case P add)
  have shape': "nrows ?out' = s - km + 1" "ncols ?out' = s - kn + 1"
    using Cons.prems(2,3) by simp_all
  from Cons.IH [OF rest shape'] obtain B where
    run: "xcorr2_general S K kjs ?out' = Inr B"
    and shB: "nrows B = s - km + 1" "ncols B = s - kn + 1"
    and entB: "\<forall>i j. 0 \<le> i \<and> i < s - km + 1 \<and> 0 \<le> j \<and> j < s - kn + 1 \<longrightarrow>
                  entry B i j =
                  entry ?out' i j + (\<Sum>kj\<leftarrow>kjs. c * (\<Sum>a\<in>{0..km - 1}. entry S (i + a) (j + kj)))"
    by blast
  have ent: "\<forall>i j. 0 \<le> i \<and> i < s - km + 1 \<and> 0 \<le> j \<and> j < s - kn + 1 \<longrightarrow>
                  entry B i j =
                  entry out i j + (\<Sum>kj\<leftarrow>kj # kjs. c * (\<Sum>a\<in>{0..km - 1}. entry S (i + a) (j + kj)))"
  proof (intro allI impI)
    fix i j assume ij: "0 \<le> i \<and> i < s - km + 1 \<and> 0 \<le> j \<and> j < s - kn + 1"
    have "entry ?P i j =
          (\<Sum>k'\<in>{0..s - 1}. (if 0 \<le> k' - i \<and> k' - i < km then entry K (k' - i) kj else 0) *
                              entry S k' (j + kj))"
      by (simp add: sum_list_py_range)
    also have "\<dots> = (\<Sum>k'\<in>{0..s - 1}. (if 0 \<le> k' - i \<and> k' - i < km then 1 else 0) *
                              (c * entry S k' (j + kj)))"
      by (rule sum.cong) (use const kj in auto)
    also have "\<dots> = (\<Sum>a\<in>{0..km - 1}. c * entry S (i + a) (j + kj))"
      by (rule window_sum) (use ij k in auto)
    also have "\<dots> = c * (\<Sum>a\<in>{0..km - 1}. entry S (i + a) (j + kj))"
      by (simp add: sum_distrib_left)
    finally have p: "entry ?P i j = c * (\<Sum>a\<in>{0..km - 1}. entry S (i + a) (j + kj))" .
    from entB ij have "entry B i j =
        entry ?out' i j + (\<Sum>kj\<leftarrow>kjs. c * (\<Sum>a\<in>{0..km - 1}. entry S (i + a) (j + kj)))"
      by blast
    also have "entry ?out' i j = entry out i j + entry ?P i j" by simp
    finally show "entry B i j =
        entry out i j + (\<Sum>kj\<leftarrow>kj # kjs. c * (\<Sum>a\<in>{0..km - 1}. entry S (i + a) (j + kj)))"
      by (simp only: p list.map sum_list.Cons add.assoc)
  qed
  from step run shB ent show ?case by (simp only:) blast
qed

lemma xcorr2_branches_agree_square:
  assumes shp: "nrows S = s" "ncols S = s" "nrows K = km" "ncols K = kn"
      and k: "0 < km" "km \<le> s" "0 < kn" "kn \<le> s"
      and const: "\<And>i j. 0 \<le> i \<Longrightarrow> i < km \<Longrightarrow> 0 \<le> j \<Longrightarrow> j < kn \<Longrightarrow> entry K i j = c"
  shows "\<exists>A B. xcorr2_constant S K c = Inr A \<and>
           xcorr2_general S K (py_range 0 kn)
             \<lparr>nrows = s - km + 1, ncols = s - kn + 1, entry = (\<lambda>i j. 0)\<rparr> = Inr B \<and>
           nrows A = nrows B \<and> ncols A = ncols B \<and>
           (\<forall>i j. 0 \<le> i \<and> i < nrows A \<and> 0 \<le> j \<and> j < ncols A \<longrightarrow> entry A i j = entry B i j)"
proof -
  let ?Z = "\<lparr>nrows = s - km + 1, ncols = s - kn + 1, entry = (\<lambda>i j. 0::real)\<rparr>"
  from xcorr2_constant_square [OF shp k, of c] obtain A where
    A: "xcorr2_constant S K c = Inr A" "nrows A = s - km + 1" "ncols A = s - kn + 1"
    and entA: "\<forall>i j. 0 \<le> i \<and> i < s - km + 1 \<and> 0 \<le> j \<and> j < s - kn + 1 \<longrightarrow>
                  entry A i j = (\<Sum>b\<in>{0..kn - 1}. \<Sum>a\<in>{0..km - 1}. entry S (i + a) (j + b)) * c"
    by blast
  have kjs: "list_all (\<lambda>kj. 0 \<le> kj \<and> kj < kn) (py_range 0 kn)"
    by (auto simp add: list_all_iff py_range_def)
  have "\<exists>B. xcorr2_general S K (py_range 0 kn) ?Z = Inr B \<and> nrows B = s - km + 1 \<and> ncols B = s - kn + 1 \<and>
           (\<forall>i j. 0 \<le> i \<and> i < s - km + 1 \<and> 0 \<le> j \<and> j < s - kn + 1 \<longrightarrow>
                  entry B i j =
                  entry ?Z i j + (\<Sum>kj\<leftarrow>py_range 0 kn. c * (\<Sum>a\<in>{0..km - 1}. entry S (i + a) (j + kj))))"
    by (rule xcorr2_general_square [OF shp k const kjs]) simp_all
  then obtain B where
    B: "xcorr2_general S K (py_range 0 kn) ?Z = Inr B" "nrows B = s - km + 1" "ncols B = s - kn + 1"
    and entB: "\<forall>i j. 0 \<le> i \<and> i < s - km + 1 \<and> 0 \<le> j \<and> j < s - kn + 1 \<longrightarrow>
                  entry B i j =
                  entry ?Z i j + (\<Sum>kj\<leftarrow>py_range 0 kn. c * (\<Sum>a\<in>{0..km - 1}. entry S (i + a) (j + kj)))"
    by blast
  have eq: "\<forall>i j. 0 \<le> i \<and> i < nrows A \<and> 0 \<le> j \<and> j < ncols A \<longrightarrow> entry A i j = entry B i j"
  proof (intro allI impI)
    fix i j assume "0 \<le> i \<and> i < nrows A \<and> 0 \<le> j \<and> j < ncols A"
    then have ij: "0 \<le> i \<and> i < s - km + 1 \<and> 0 \<le> j \<and> j < s - kn + 1"
      using A(2,3) by simp
    have "entry B i j = (\<Sum>kj\<leftarrow>py_range 0 kn. c * (\<Sum>a\<in>{0..km - 1}. entry S (i + a) (j + kj)))"
      using entB ij by simp
    also have "\<dots> = (\<Sum>b\<in>{0..kn - 1}. c * (\<Sum>a\<in>{0..km - 1}. entry S (i + a) (j + b)))"
      by (rule sum_list_py_range)
    also have "\<dots> = (\<Sum>b\<in>{0..kn - 1}. \<Sum>a\<in>{0..km - 1}. entry S (i + a) (j + b)) * c"
      by (simp add: sum_distrib_left mult.commute)
    finally show "entry A i j = entry B i j"
      using entA ij by simp
  qed
  from A B eq show ?thesis by simp
qed

text \<open>
  Claim C8. The branch for a constant kernel is meant to agree with the general branch on
  every sparse signal. Both branches build their operators with the shape
  \<open>(sn - km + 1, sm)\<close>, which is right for square signals only
  (\<open>xcorr2_branches_agree_square\<close>). On a 2 x 3 signal of ones and
  the constant 1 x 1 kernel 2, the constant branch returns a 3 x 2 matrix (so that
  \<^verbatim>\<open>xcorr2\<close> loses the last column of the result), while the general branch, run on the
  same input, stops with a ValueError when it adds a 3 x 3 product to the 2 x 3 result.
\<close>

theorem xcorr2_branches_differ:
  "map_sum id dense_of (xcorr2_constant ex_signal23 (ex_kernel11 2) 2) = Inr [[2, 2], [2, 2], [0, 0]] \<and>
   map_sum id dense_of
     (xcorr2_general ex_signal23 (ex_kernel11 2) (py_range 0 1)
        \<lparr>nrows = 2, ncols = 3, entry = (\<lambda>i j. 0)\<rparr>) = Inl ValueError \<and>
   map_sum id dense_of (xcorr2 (Sparse ex_signal23) (Dense (ex_kernel11 2)) (1 / 10 ^ 4)) =
     Inr [[2, 2, 0], [2, 2, 0]]"
  by code_simp

text \<open>
  Claim C9. Every stored value of the result of \<^verbatim>\<open>corrcoef2d\<close> is meant to lie in
  [0, 1]. The denominator is computed by \<^verbatim>\<open>xcorr2\<close>, which sets values below 1e-4 to
  zero; where the numerator survives this threshold and the sum of squares does not, the
  division is by zero and the stored value is +inf. For the 2 x 2 signal with 0.005 on
  the diagonal and the 1 x 1 kernel 1:
\<close>

theorem corrcoef2d_infinite_value:
  "map_sum id dense_of
     (corrcoef2d diag_trim (Sparse ex_signal_small) (Dense (ex_kernel11 1)) None False) =
     Inr [[PosInf, Finite 0], [Finite 0, PosInf]]"
  by (simp add: corrcoef2d_def xcorr2_defs ex_signal_small_def ex_kernel11_def dense_of_def
        np_divide_def power2_eq_square)

end
